theory Spec2Isabelle
  imports Complex_Main "HOL-Library.Word" "HOL-Library.Log_Nat"
begin

section \<open>Machine arithmetic\<close>

text \<open>
  The sources are C++. The integer types are taken at their LP64 widths:
  \<open>unsigned long\<close> and \<open>long\<close> are 64-bit words (\<open>long\<close> is the two's-complement reading
  \<open>sint\<close> of the same word), \<open>unsigned int\<close> is a 32-bit word. Addition, subtraction and
  multiplication of words wrap around as the C++ operations on \<open>unsigned long\<close> do.
\<close>

type_synonym ulong = "64 word"
type_synonym uint = "32 word"

subsection \<open>The type \<open>double\<close>\<close>

text \<open>
  A finite \<open>double\<close> is the rational number it denotes. \<open>fl\<close> rounds a rational to the
  nearest number with a 53-bit significand, ties to even (IEEE 754 binary64, default
  rounding); the exponent range is not limited, which is exact for every value that occurs
  below (magnitudes between \<open>2^-64\<close> and \<open>2^130\<close>, or zero). \<open>ilog2 x\<close> is the binary
  exponent \<open>\<lfloor>log2 x\<rfloor>\<close> of a positive rational.
\<close>

definition ilog2 :: "rat \<Rightarrow> int" where
  "ilog2 x = (let e = bitlen (fst (quotient_of x)) - bitlen (snd (quotient_of x))
              in if 2 powi e \<le> x then e else e - 1)"

definition round_half_even :: "rat \<Rightarrow> int" where
  "round_half_even m =
     (let f = \<lfloor>m\<rfloor>; r = m - of_int f
      in if r < 1 / 2 then f else if 1 / 2 < r then f + 1 else if even f then f else f + 1)"

definition fl :: "rat \<Rightarrow> rat" where
  "fl x = (if x = 0 then 0
           else let s = 2 powi (ilog2 \<bar>x\<bar> - 52)
                in sgn x * of_int (round_half_even (\<bar>x\<bar> / s)) * s)"

text \<open>
  \<open>NonFinite\<close> stands for an infinity or a NaN. In the functions modelled here it can only
  come from a zero divisor, it is never itself a divisor, and each operation applied to it
  gives a non-finite value again.
\<close>

datatype double = Finite rat | NonFinite

definition double_of_ulong :: "ulong \<Rightarrow> double" where
  "double_of_ulong w = Finite (fl (of_int (uint w)))"

definition double_of_long :: "ulong \<Rightarrow> double" where
  "double_of_long w = Finite (fl (of_int (sint w)))"

fun double_div :: "double \<Rightarrow> double \<Rightarrow> double" where
  "double_div (Finite x) (Finite y) = (if y = 0 then NonFinite else Finite (fl (x / y)))"
| "double_div (Finite x) NonFinite = NonFinite"
| "double_div NonFinite y = NonFinite"

fun double_add :: "double \<Rightarrow> double \<Rightarrow> double" where
  "double_add (Finite x) (Finite y) = Finite (fl (x + y))"
| "double_add (Finite x) NonFinite = NonFinite"
| "double_add NonFinite y = NonFinite"

fun double_mul :: "double \<Rightarrow> double \<Rightarrow> double" where
  "double_mul (Finite x) (Finite y) = Finite (fl (x * y))"
| "double_mul (Finite x) NonFinite = NonFinite"
| "double_mul NonFinite y = NonFinite"

fun double_ceil :: "double \<Rightarrow> double" where
  "double_ceil (Finite x) = Finite (of_int \<lceil>x\<rceil>)"
| "double_ceil NonFinite = NonFinite"

text \<open>
  The conversion of a \<open>double\<close> to an integer type drops the fraction. When the result does
  not fit the integer type (or the value is not finite) C++ leaves the behaviour undefined;
  the hardware conversions do not trap and return some value. That value is the parameter
  \<open>oor\<close> ("out of range") of the model, a function of the converted \<open>double\<close>.
\<close>

definition trunc :: "rat \<Rightarrow> int" where
  "trunc x = (if 0 \<le> x then \<lfloor>x\<rfloor> else \<lceil>x\<rceil>)"

fun ulong_of_double :: "(double \<Rightarrow> ulong) \<Rightarrow> double \<Rightarrow> ulong" where
  "ulong_of_double oor (Finite x) =
     (if 0 \<le> trunc x \<and> trunc x < 2 ^ 64 then word_of_int (trunc x) else oor (Finite x))"
| "ulong_of_double oor NonFinite = oor NonFinite"

fun long_of_double :: "(double \<Rightarrow> ulong) \<Rightarrow> double \<Rightarrow> ulong" where
  "long_of_double oor (Finite x) =
     (if - (2 ^ 63) \<le> trunc x \<and> trunc x < 2 ^ 63 then word_of_int (trunc x) else oor (Finite x))"
| "long_of_double oor NonFinite = oor NonFinite"

text \<open>One particular choice of the out-of-range value, for running the model.\<close>

definition oor_zero :: "double \<Rightarrow> ulong" where
  "oor_zero x = 0"


section \<open>VnlForwardFFTImageFilter::IsDimensionSizeLegal\<close>

text \<open>
  \<^verbatim>\<open>int ifac = 2;
  for ( int l = 1; l <= 3; l++ )
    { for (; n % ifac == 0; ) { n /= ifac; }
      ifac += l; }
  return ( n == 1 );\<close>

  \<open>n\<close> is an \<open>InputSizeValueType\<close>, an \<open>unsigned long\<close>; \<open>ifac\<close> is converted to it in
  \<open>n % ifac\<close> and \<open>n /= ifac\<close>. Both loops are partial functions: \<open>None\<close> is a run that
  does not return.
\<close>

partial_function (option) inner_loop :: "ulong \<Rightarrow> ulong \<Rightarrow> ulong option" where
  "inner_loop n ifac = (if n mod ifac = 0 then inner_loop (n div ifac) ifac else Some n)"

partial_function (option) outer_loop :: "int \<Rightarrow> int \<Rightarrow> ulong \<Rightarrow> ulong option" where
  "outer_loop l ifac n =
     (if l \<le> 3
      then Option.bind (inner_loop n (word_of_int ifac)) (\<lambda>n'. outer_loop (l + 1) (ifac + l) n')
      else Some n)"

declare inner_loop.simps [code]
declare outer_loop.simps [code]

definition IsDimensionSizeLegal :: "ulong \<Rightarrow> bool option" where
  "IsDimensionSizeLegal n = map_option (\<lambda>n'. n' = 1) (outer_loop 1 2 n)"


section \<open>TemporalProcessObject\<close>

subsection \<open>Data\<close>

text \<open>
  Modelled from the spec: the headers that declare \<open>TemporalRegion\<close>, \<open>TemporalDataObject\<close>
  and the members of \<open>TemporalProcessObject\<close> are not among the sources. The records have
  the attributes the specification lists, under the names the implementation file reads and
  writes them by, each a 64-bit word. A frame start, \<open>FrameSkipPerOutput\<close> and
  \<open>InputStencilCurrentFrameIndex\<close> are read as signed where the code reads them so (it
  compares the skip with zero from both sides, and takes the start of the input as a
  \<open>long\<close>); the frame counts are unsigned. The statements that print to \<open>std::cout\<close> are
  left out of the functions below.
\<close>

record TemporalRegion =
  FrameStart :: ulong
  FrameDuration :: ulong

record TemporalDataObject =
  LargestPossibleTemporalRegion :: TemporalRegion
  RequestedTemporalRegion :: TemporalRegion
  BufferedTemporalRegion :: TemporalRegion

text \<open>
  A \<open>DataObject*\<close> as \<open>dynamic_cast<TemporalDataObject*>\<close> sees it: the cast gives the
  temporal object, or a null pointer (\<open>NonTemporal\<close>).
\<close>

datatype DataObject = Temporal TemporalDataObject | NonTemporal

record TemporalProcessObject =
  UnitInputNumberOfFrames :: ulong
  UnitOutputNumberOfFrames :: ulong
  FrameSkipPerOutput :: ulong
  InputStencilCurrentFrameIndex :: ulong
  Input0 :: DataObject
  Output0 :: DataObject

text \<open>
  \<open>TypeMismatch\<close> and \<open>InvalidRegion\<close> are the two exceptions raised with
  \<open>itkExceptionMacro\<close>; \<open>UndefinedBehaviour\<close> is a call through a null pointer or an
  integer division by zero.
\<close>

datatype failure = TypeMismatch | InvalidRegion | UndefinedBehaviour

subsection \<open>EnlargeOutputRequestedRegion\<close>

text \<open>
  \<^verbatim>\<open>unsigned long outFrameDuration = outReqTempRegion.GetFrameDuration();
  unsigned int remainder = outFrameDuration % m_UnitOutputNumberOfFrames;
  if (remainder > 0)
    { outFrameDuration += (m_UnitOutputNumberOfFrames - remainder); }\<close>
\<close>

definition EnlargeOutputRequestedTemporalRegion ::
  "TemporalProcessObject \<Rightarrow> TemporalDataObject \<Rightarrow> failure + TemporalDataObject" where
  "EnlargeOutputRequestedTemporalRegion p output =
     (let outReqTempRegion = RequestedTemporalRegion output;
          outFrameDuration = FrameDuration outReqTempRegion
      in if UnitOutputNumberOfFrames p = 0 then Inl UndefinedBehaviour
         else
           let remainder = (ucast (outFrameDuration mod UnitOutputNumberOfFrames p) :: uint);
               outFrameDuration' =
                 (if 0 < remainder
                  then outFrameDuration + (UnitOutputNumberOfFrames p - ucast remainder)
                  else outFrameDuration)
           in Inr (output\<lparr>RequestedTemporalRegion :=
                              outReqTempRegion\<lparr>FrameDuration := outFrameDuration'\<rparr>\<rparr>))"

definition EnlargeOutputRequestedRegion ::
  "TemporalProcessObject \<Rightarrow> DataObject \<Rightarrow> failure + DataObject" where
  "EnlargeOutputRequestedRegion p output =
     (case output of
        Temporal tOutput \<Rightarrow> map_sum id Temporal (EnlargeOutputRequestedTemporalRegion p tOutput)
      | NonTemporal \<Rightarrow> Inl TypeMismatch)"

subsection \<open>GenerateInputRequestedRegion\<close>

text \<open>
  \<^verbatim>\<open>unsigned long numInputRequests =
    (unsigned long)ceil((double)outReqTempRegion.GetFrameDuration() /
                        (double)m_UnitOutputNumberOfFrames);
  unsigned long inputDuration = m_FrameSkipPerOutput * (numInputRequests - 1) +
                                  m_UnitInputNumberOfFrames;
  long inputStart = outReqTempRegion.GetFrameStart() - m_InputStencilCurrentFrameIndex;
  if (inputStart < 0) { itkExceptionMacro(...); }\<close>

  The function casts input(0) and output(0) without checking the casts, reads the output
  first and writes the input last.
\<close>

definition GenerateInputRequestedTemporalRegion ::
  "(double \<Rightarrow> ulong) \<Rightarrow> TemporalProcessObject \<Rightarrow> failure + TemporalProcessObject" where
  "GenerateInputRequestedTemporalRegion oor p =
     (case Output0 p of
        NonTemporal \<Rightarrow> Inl UndefinedBehaviour
      | Temporal output \<Rightarrow>
          let outReqTempRegion = RequestedTemporalRegion output;
              numInputRequests =
                ulong_of_double oor
                  (double_ceil (double_div (double_of_ulong (FrameDuration outReqTempRegion))
                                           (double_of_ulong (UnitOutputNumberOfFrames p))));
              inputDuration = FrameSkipPerOutput p * (numInputRequests - 1)
                                + UnitInputNumberOfFrames p;
              inputStart = FrameStart outReqTempRegion - InputStencilCurrentFrameIndex p
          in if sint inputStart < 0 then Inl InvalidRegion
             else
               (case Input0 p of
                  NonTemporal \<Rightarrow> Inl UndefinedBehaviour
                | Temporal input \<Rightarrow>
                    Inr (p\<lparr>Input0 := Temporal (input\<lparr>RequestedTemporalRegion :=
                            \<lparr>FrameStart = inputStart, FrameDuration = inputDuration\<rparr>\<rparr>)\<rparr>)))"

text \<open>
  \<^verbatim>\<open>TemporalDataObject* tOutput = dynamic_cast<TemporalDataObject*>(this->GetOutput(0));
  TemporalDataObject* tInput = dynamic_cast<TemporalDataObject*>(this->GetOutput(0));
  if (!tOutput) { itkExceptionMacro(...); }
  else if (!tInput) { itkExceptionMacro(...); }
  else { this->GenerateInputRequestedTemporalRegion(); }\<close>
\<close>

definition GenerateInputRequestedRegion ::
  "(double \<Rightarrow> ulong) \<Rightarrow> TemporalProcessObject \<Rightarrow> failure + TemporalProcessObject" where
  "GenerateInputRequestedRegion oor p =
     (let tOutput = Output0 p;
          tInput = Output0 p
      in if tOutput = NonTemporal then Inl TypeMismatch
         else if tInput = NonTemporal then Inl TypeMismatch
         else GenerateInputRequestedTemporalRegion oor p)"

subsection \<open>UpdateOutputInformation\<close>

text \<open>
  \<^verbatim>\<open>Superclass::UpdateOutputInformation();
  ...
  long scannableDuration = inputLargestRegion.GetFrameDuration() -
                            m_UnitInputNumberOfFrames + 1;
  long outputDuration = m_UnitOutputNumberOfFrames *
    ((double)(scannableDuration - 1) / (double)(m_FrameSkipPerOutput) + 1);
  long outputStart = inputLargestRegion.GetFrameStart() + m_InputStencilCurrentFrameIndex;\<close>

  The superclass is not among the sources: its step is the parameter \<open>Superclass_Update\<close>.
  The product is formed in \<open>double\<close> and converted to \<open>long\<close> afterwards.
\<close>

definition UpdateOutputInformation ::
  "(TemporalProcessObject \<Rightarrow> TemporalProcessObject) \<Rightarrow> (double \<Rightarrow> ulong) \<Rightarrow>
   TemporalProcessObject \<Rightarrow> failure + TemporalProcessObject" where
  "UpdateOutputInformation Superclass_Update oor p0 =
     (let p = Superclass_Update p0
      in case Input0 p of
           NonTemporal \<Rightarrow> Inl TypeMismatch
         | Temporal input \<Rightarrow>
             (case Output0 p of
                NonTemporal \<Rightarrow> Inl TypeMismatch
              | Temporal output \<Rightarrow>
                  let inputLargestRegion = LargestPossibleTemporalRegion input;
                      scannableDuration = FrameDuration inputLargestRegion
                                            - UnitInputNumberOfFrames p + 1;
                      outputDuration =
                        long_of_double oor
                          (double_mul (double_of_ulong (UnitOutputNumberOfFrames p))
                             (double_add
                                (double_div (double_of_long (scannableDuration - 1))
                                            (double_of_long (FrameSkipPerOutput p)))
                                (Finite 1)));
                      outputStart = FrameStart inputLargestRegion
                                      + InputStencilCurrentFrameIndex p;
                      largestRegion = (LargestPossibleTemporalRegion output)
                                        \<lparr>FrameDuration := outputDuration, FrameStart := outputStart\<rparr>
                  in Inr (p\<lparr>Output0 := Temporal (output\<lparr>LargestPossibleTemporalRegion :=
                                                            largestRegion\<rparr>)\<rparr>)))"

subsection \<open>SplitRequestedTemporalRegion\<close>

text \<open>
  \<^verbatim>\<open>for (unsigned int i = 0; i < numRequests; ++i)
    { TemporalRegion r;
      r.SetFrameStart(regionStartFrame);
      r.SetFrameDuration(this->m_UnitInputNumberOfFrames);
      inputTemporalRegionRequests.push_back(r);
      regionStartFrame += this->m_FrameSkipPerOutput; }\<close>

  The counter is an \<open>unsigned int\<close>, the bound an \<open>unsigned long\<close>. \<open>None\<close> is a run of the
  loop that does not return.
\<close>

partial_function (option) split_loop ::
  "TemporalProcessObject \<Rightarrow> ulong \<Rightarrow> uint \<Rightarrow> ulong \<Rightarrow> TemporalRegion list \<Rightarrow>
   TemporalRegion list option" where
  "split_loop p numRequests i regionStartFrame inputTemporalRegionRequests =
     (if ucast i < numRequests
      then split_loop p numRequests (i + 1) (regionStartFrame + FrameSkipPerOutput p)
             (inputTemporalRegionRequests @
                [\<lparr>FrameStart = regionStartFrame, FrameDuration = UnitInputNumberOfFrames p\<rparr>])
      else Some inputTemporalRegionRequests)"

declare split_loop.simps [code]

text \<open>
  \<^verbatim>\<open>unsigned long numRequests = (unsigned long)(ceil(
      (double)(unbufferedRegion.GetFrameDuration() / (double)(m_UnitOutputNumberOfFrames)) ));
  unsigned long regionStartFrame = 1;
  if (this->m_FrameSkipPerOutput > 0)
    { regionStartFrame = unbufferedRegion.GetFrameStart(); }
  else if (this->m_FrameSkipPerOutput < 0)
    { regionStartFrame = unbufferedRegion.GetFrameStart() + unbufferedRegion.GetFrameDuration() -
                          this->m_UnitOutputNumberOfFrames; }\<close>

  \<open>GetUnbufferedRequestedTemporalRegion\<close> belongs to \<open>TemporalDataObject\<close>, which is not
  among the sources: it is a parameter.
\<close>

definition SplitRequestedTemporalRegion ::
  "(TemporalDataObject \<Rightarrow> TemporalRegion) \<Rightarrow> (double \<Rightarrow> ulong) \<Rightarrow> TemporalProcessObject \<Rightarrow>
   (failure + TemporalRegion list) option" where
  "SplitRequestedTemporalRegion GetUnbufferedRequestedTemporalRegion oor p =
     (case Output0 p of
        NonTemporal \<Rightarrow> Some (Inl TypeMismatch)
      | Temporal outputObject \<Rightarrow>
          let unbufferedRegion = GetUnbufferedRequestedTemporalRegion outputObject;
              numRequests =
                ulong_of_double oor
                  (double_ceil (double_div (double_of_ulong (FrameDuration unbufferedRegion))
                                           (double_of_ulong (UnitOutputNumberOfFrames p))));
              regionStartFrame =
                (if 0 < sint (FrameSkipPerOutput p) then FrameStart unbufferedRegion
                 else if sint (FrameSkipPerOutput p) < 0
                 then FrameStart unbufferedRegion + FrameDuration unbufferedRegion
                        - UnitOutputNumberOfFrames p
                 else 1)
          in map_option Inr (split_loop p numRequests 0 regionStartFrame []))"


section \<open>The claims of the specification, and configurations to run the model\<close>

text \<open>
  The duration of the requested region of the input as the specification states it:
  \<open>frameSkipPerOutput * (ceil(outputFrameDuration / unitOutputNumberOfFrames) - 1)
  + unitInputNumberOfFrames\<close>, over the integers.
\<close>

definition spec_input_duration :: "TemporalProcessObject \<Rightarrow> TemporalRegion \<Rightarrow> int" where
  "spec_input_duration p outReqTempRegion =
     (let numInputRequests = \<lceil>of_int (uint (FrameDuration outReqTempRegion))
                               / of_int (uint (UnitOutputNumberOfFrames p)) :: rat\<rceil>
      in sint (FrameSkipPerOutput p) * (numInputRequests - 1)
           + uint (UnitInputNumberOfFrames p))"

text \<open>
  The start of window \<open>i\<close> as section 8 of the specification states it: forward from the
  start of the unbuffered region, backward from its end less \<open>UnitInputNumberOfFrames\<close>.
\<close>

definition spec_window_start :: "TemporalProcessObject \<Rightarrow> TemporalRegion \<Rightarrow> nat \<Rightarrow> ulong" where
  "spec_window_start p unbufferedRegion i =
     (if 0 < sint (FrameSkipPerOutput p)
      then FrameStart unbufferedRegion + of_nat i * FrameSkipPerOutput p
      else FrameStart unbufferedRegion + FrameDuration unbufferedRegion
             - UnitInputNumberOfFrames p + of_nat i * FrameSkipPerOutput p)"

text \<open>
  The duration of the largest possible region of the output as the specification states it:
  \<open>unitOutputNumberOfFrames * floor((scannableDuration - 1) / frameSkipPerOutput + 1)\<close>
  with \<open>scannableDuration = inputLargestDuration - unitInputNumberOfFrames + 1\<close>.
\<close>

definition spec_output_duration :: "TemporalProcessObject \<Rightarrow> TemporalRegion \<Rightarrow> int" where
  "spec_output_duration p inputLargestRegion =
     (let scannableDuration = int (unat (FrameDuration inputLargestRegion))
                                - int (unat (UnitInputNumberOfFrames p)) + 1
      in int (unat (UnitOutputNumberOfFrames p))
           * \<lfloor>of_int (scannableDuration - 1) / of_int (sint (FrameSkipPerOutput p)) + (1 :: rat)\<rfloor>)"

text \<open>
  A stage with its four parameters, its input and its output; a data object that requests
  a region, and one that can provide a region.
\<close>

definition region :: "ulong \<Rightarrow> ulong \<Rightarrow> TemporalRegion" where
  "region s d = \<lparr>FrameStart = s, FrameDuration = d\<rparr>"

definition requesting :: "TemporalRegion \<Rightarrow> DataObject" where
  "requesting r = Temporal \<lparr>LargestPossibleTemporalRegion = region 0 0,
                            RequestedTemporalRegion = r,
                            BufferedTemporalRegion = region 0 0\<rparr>"

definition providing :: "TemporalRegion \<Rightarrow> DataObject" where
  "providing r = Temporal \<lparr>LargestPossibleTemporalRegion = r,
                           RequestedTemporalRegion = region 0 0,
                           BufferedTemporalRegion = region 0 0\<rparr>"

definition stage :: "ulong \<Rightarrow> ulong \<Rightarrow> ulong \<Rightarrow> ulong \<Rightarrow> DataObject \<Rightarrow> DataObject \<Rightarrow> TemporalProcessObject" where
  "stage ui uo k c inp out =
     \<lparr>UnitInputNumberOfFrames = ui, UnitOutputNumberOfFrames = uo, FrameSkipPerOutput = k,
      InputStencilCurrentFrameIndex = c, Input0 = inp, Output0 = out\<rparr>"


section \<open>The size check of the FFT filter\<close>

lemma inner_loop_Some_nonzero:
  assumes "inner_loop n k = Some y" shows "n \<noteq> 0"
  using assms
proof (rule inner_loop.raw_induct [rotated, where P = "\<lambda>n k y. n \<noteq> 0"])
  fix f :: "ulong \<Rightarrow> ulong \<Rightarrow> ulong option" and n k y
  assume IH: "\<And>n k y. f n k = Some y \<Longrightarrow> n \<noteq> 0"
    and eq: "(if n mod k = 0 then f (n div k) k else Some n) = Some y"
  show "n \<noteq> 0"
  proof
    assume z: "n = 0"
    with eq have "f 0 k = Some y" by simp
    from IH [OF this] show False by simp
  qed
qed

lemma inner_loop_zero: "inner_loop 0 k = None"
  using inner_loop_Some_nonzero [of 0 k] by (cases "inner_loop 0 k") auto

lemma mod_zero_iff_dvd: "(n mod k = 0) = (unat k dvd unat n)" for n k :: ulong
proof -
  have "(n mod k = 0) = (unat (n mod k) = 0)" by (simp add: unat_eq_0)
  also have "\<dots> = (unat k dvd unat n)" by (simp add: unat_mod mod_eq_0_iff_dvd)
  finally show ?thesis .
qed

text \<open>
  From a non-zero \<open>n\<close> the inner loop returns: it divides \<open>k\<close> out of \<open>n\<close> as often as
  \<open>k\<close> divides.
\<close>

lemma inner_loop_total:
  "n \<noteq> 0 \<Longrightarrow> 2 \<le> unat k \<Longrightarrow>
   \<exists>m j. inner_loop n k = Some m \<and> m \<noteq> 0 \<and> \<not> unat k dvd unat m \<and> unat n = unat k ^ j * unat m"
proof (induction "unat n" arbitrary: n rule: less_induct)
  case less
  show ?case
  proof (cases "n mod k = 0")
    case False
    hence "inner_loop n k = Some n" by (simp add: inner_loop.simps)
    moreover have "\<not> unat k dvd unat n"
      using False by (simp add: mod_zero_iff_dvd)
    ultimately show ?thesis using less.prems by (intro exI[of _ n] exI[of _ 0]) simp
  next
    case True
    hence dv: "unat k dvd unat n"
      by (simp add: mod_zero_iff_dvd)
    have npos: "0 < unat n" using less.prems by (simp add: unat_gt_0)
    have q: "unat (n div k) = unat n div unat k" by (rule unat_div)
    have qlt: "unat (n div k) < unat n" using npos less.prems(2) by (simp add: q)
    have qpos: "0 < unat n div unat k" using dv npos less.prems(2)
      by (metis dvd_div_eq_0_iff gr0I less_numeral_extra(3))
    hence qnz: "n div k \<noteq> 0" using q by (metis unat_0 less_numeral_extra(3))
    from less.hyps [OF qlt qnz less.prems(2)]
    obtain m j where m: "inner_loop (n div k) k = Some m" "m \<noteq> 0" "\<not> unat k dvd unat m"
      "unat (n div k) = unat k ^ j * unat m" by blast
    have "inner_loop n k = Some m" using True m(1) by (subst inner_loop.simps) simp
    moreover have "unat n = unat k ^ Suc j * unat m"
      using dv m(4) q by (metis dvd_div_mult_self mult.assoc mult.commute power_Suc)
    ultimately show ?thesis using m(2,3) by blast
  qed
qed

lemma coprime_3_nat: "\<not> 3 dvd m \<Longrightarrow> coprime 3 m" for m :: nat
proof (rule coprimeI)
  fix c :: nat
  assume n3: "\<not> 3 dvd m" and c3: "c dvd 3" and cm: "c dvd m"
  from c3 have "c \<le> 3" by (rule dvd_imp_le) simp
  then consider "c = 0" | "c = 1" | "c = 2" | "c = 3" by linarith
  then show "is_unit c"
  proof cases
    case 1 with c3 show ?thesis by simp
  next
    case 2 then show ?thesis by simp
  next
    case 3 with c3 show ?thesis by presburger
  next
    case 4 with cm n3 show ?thesis by simp
  qed
qed

lemma coprime_5_nat: "\<not> 5 dvd m \<Longrightarrow> coprime 5 m" for m :: nat
proof (rule coprimeI)
  fix c :: nat
  assume n5: "\<not> 5 dvd m" and c5: "c dvd 5" and cm: "c dvd m"
  from c5 have "c \<le> 5" by (rule dvd_imp_le) simp
  then consider "c = 0" | "c = 1" | "c = 2" | "c = 3" | "c = 4" | "c = 5" by linarith
  then show "is_unit c"
  proof cases
    case 1 with c5 show ?thesis by simp
  next
    case 2 then show ?thesis by simp
  next
    case 3 with c5 show ?thesis by presburger
  next
    case 4 with c5 show ?thesis by presburger
  next
    case 5 with c5 show ?thesis by presburger
  next
    case 6 with cm n5 show ?thesis by simp
  qed
qed

lemma smooth_cofactor:
  fixes m :: nat
  assumes "odd m" "\<not> 3 dvd m" "\<not> 5 dvd m" "m dvd 2 ^ a * 3 ^ b * 5 ^ c"
  shows "m = 1"
proof -
  have "coprime (2 ^ a) m" using assms(1) by (simp add: coprime_left_2_iff_odd)
  moreover have "coprime (3 ^ b) m" using coprime_3_nat [OF assms(2)] by simp
  moreover have "coprime (5 ^ c) m" using coprime_5_nat [OF assms(3)] by simp
  ultimately have "coprime (2 ^ a * 3 ^ b * 5 ^ c) m" by simp
  with assms(4) show ?thesis
    by (metis coprime_absorb_right coprime_commute is_unit_gcd nat_dvd_1_iff_1 gcd_nat.absorb_iff1 coprime_iff_gcd_eq_1 gcd.commute)
qed

text \<open>
  C10. For every size \<open>n \<ge> 1\<close>, \<open>IsDimensionSizeLegal\<close> returns, and it returns true exactly
  when \<open>n = 2^a * 3^b * 5^c\<close> for some \<open>a\<close>, \<open>b\<close>, \<open>c\<close> (\<open>n = 1\<close> included); for \<open>n = 0\<close> the
  inner loop never ends and the function does not return.
\<close>

theorem IsDimensionSizeLegal_smooth:
  "(n \<noteq> 0 \<longrightarrow> IsDimensionSizeLegal n = Some (\<exists>a b c. unat n = 2 ^ a * 3 ^ b * 5 ^ c))
   \<and> IsDimensionSizeLegal 0 = None"
proof (intro conjI impI)
  assume nz: "n \<noteq> 0"
  from inner_loop_total [OF nz, of 2] obtain m1 j1 where
    m1: "inner_loop n 2 = Some m1" "m1 \<noteq> 0" "odd (unat m1)" "unat n = 2 ^ j1 * unat m1"
    by auto
  from inner_loop_total [OF m1(2), of 3] obtain m2 j2 where
    m2: "inner_loop m1 3 = Some m2" "m2 \<noteq> 0" "\<not> 3 dvd unat m2" "unat m1 = 3 ^ j2 * unat m2"
    by auto
  from inner_loop_total [OF m2(2), of 5] obtain m3 j3 where
    m3: "inner_loop m2 5 = Some m3" "m3 \<noteq> 0" "\<not> 5 dvd unat m3" "unat m2 = 5 ^ j3 * unat m3"
    by auto
  have run: "outer_loop 1 2 n = Some m3"
    using m1(1) m2(1) m3(1) by (simp add: outer_loop.simps)
  have n_eq: "unat n = 2 ^ j1 * 3 ^ j2 * 5 ^ j3 * unat m3"
    using m1(4) m2(4) m3(4) by simp
  have "(m3 = 1) = (\<exists>a b c. unat n = 2 ^ a * 3 ^ b * 5 ^ c)"
  proof
    assume "m3 = 1"
    with n_eq have "unat n = 2 ^ j1 * 3 ^ j2 * 5 ^ j3" by simp
    then show "\<exists>a b c. unat n = 2 ^ a * 3 ^ b * 5 ^ c" by blast
  next
    assume "\<exists>a b c. unat n = 2 ^ a * 3 ^ b * 5 ^ c"
    then obtain a b c where abc: "unat n = 2 ^ a * 3 ^ b * 5 ^ c" by blast
    have "odd (unat m2)" using m1(3) m2(4) by simp
    hence o3: "odd (unat m3)" using m3(4) by simp
    have t3: "\<not> 3 dvd unat m3" using m2(3) m3(4) by (metis dvd_mult)
    have "unat m3 dvd 2 ^ a * 3 ^ b * 5 ^ c" using n_eq abc by (metis dvd_triv_right)
    from smooth_cofactor [OF o3 t3 m3(3) this] show "m3 = 1"
      by (metis unat_1 word_unat_eq_iff)
  qed
  with run show "IsDimensionSizeLegal n = Some (\<exists>a b c. unat n = 2 ^ a * 3 ^ b * 5 ^ c)"
    by (simp add: IsDimensionSizeLegal_def)
next
  show "IsDimensionSizeLegal 0 = None"
    by (simp add: IsDimensionSizeLegal_def outer_loop.simps inner_loop_zero)
qed

theorem IsDimensionSizeLegal_smooth_witness:
  "(60 :: ulong) \<noteq> 0 \<and> IsDimensionSizeLegal 60 = Some True
   \<and> (\<exists>a b c. unat (60 :: ulong) = 2 ^ a * 3 ^ b * 5 ^ c)"
proof -
  have "IsDimensionSizeLegal 60 = Some True"
    by (simp add: IsDimensionSizeLegal_def outer_loop.simps inner_loop.simps)
  with IsDimensionSizeLegal_smooth [of 60] show ?thesis by simp
qed


section \<open>Rounding to \<open>double\<close>\<close>

text \<open>
  Two values of \<open>fl\<close>: the \<open>double\<close> next to \<open>1 / 3\<close> is \<open>6004799503160661 * 2^-54\<close>, and
  \<open>2^53 + 1\<close>, halfway between two neighbours, goes to the even one.
\<close>

lemma fl_one_third: "fl (1 / 3) = 6004799503160661 / 2 ^ 54"
  by code_simp

lemma fl_tie_to_even: "fl (2 ^ 53 + 1) = 2 ^ 53" "fl (2 ^ 53 + 3) = 2 ^ 53 + 4"
  by code_simp+

lemma powi_nat: "0 \<le> b \<Longrightarrow> (2::rat) powi b = 2 ^ nat b"
  by (simp add: power_int_def)

lemma bitlen_powi_bounds:
  assumes "0 < p"
  shows "(2::rat) powi (bitlen p - 1) \<le> of_int p" "of_int p < (2::rat) powi (bitlen p)"
proof -
  have b1: "1 \<le> bitlen p" using assms by (simp add: bitlen_alt_def)
  from bitlen_bounds [OF assms] have lo: "2 ^ nat (bitlen p - 1) \<le> p" and hi: "p < 2 ^ nat (bitlen p)"
    by auto
  from lo have "(of_int (2 ^ nat (bitlen p - 1)) :: rat) \<le> of_int p" by (simp only: of_int_le_iff)
  then show "(2::rat) powi (bitlen p - 1) \<le> of_int p" using b1 by (simp add: powi_nat)
  from hi have "(of_int p :: rat) < of_int (2 ^ nat (bitlen p))" by (simp only: of_int_less_iff)
  then show "of_int p < (2::rat) powi (bitlen p)" using b1 by (simp add: powi_nat)
qed

lemma ilog2_bounds:
  assumes "0 < x"
  shows "2 powi ilog2 x \<le> x" "x < 2 powi (ilog2 x + 1)"
proof -
  obtain p q where pq: "quotient_of x = (p, q)" by (cases "quotient_of x")
  have qpos: "0 < q" using pq by (rule quotient_of_denom_pos)
  have xeq: "x = of_int p / of_int q" using pq by (rule quotient_of_div)
  have ppos: "0 < p" using assms qpos xeq by (simp add: zero_less_divide_iff)
  define e where "e = bitlen p - bitlen q"
  note P = bitlen_powi_bounds [OF ppos] and Q = bitlen_powi_bounds [OF qpos]
  have qr: "(0::rat) < of_int q" using qpos by simp
  have "x < 2 powi bitlen p / 2 powi (bitlen q - 1)"
    unfolding xeq using P(2) Q(1) qr
    by (intro frac_less) (use ppos in \<open>auto intro: less_imp_le\<close>)
  also have "\<dots> = 2 powi (e + 1)"
    by (simp add: e_def power_int_diff [symmetric] algebra_simps)
  finally have up: "x < 2 powi (e + 1)" .
  have "2 powi (bitlen p - 1) / 2 powi bitlen q \<le> x"
    unfolding xeq using P(1) Q(2) qr
    by (intro frac_le) (use ppos in \<open>auto intro: less_imp_le\<close>)
  moreover have "2 powi (bitlen p - 1) / 2 powi bitlen q = (2::rat) powi (e - 1)"
    by (simp add: e_def power_int_diff [symmetric] algebra_simps)
  ultimately have lo: "2 powi (e - 1) \<le> x" by simp
  have il: "ilog2 x = (if 2 powi e \<le> x then e else e - 1)"
    by (simp add: ilog2_def pq e_def Let_def)
  show "2 powi ilog2 x \<le> x" using lo by (simp add: il)
  show "x < 2 powi (ilog2 x + 1)" using up by (auto simp add: il not_le)
qed


lemma round_half_even_of_int: "round_half_even (of_int k) = k"
  by (simp add: round_half_even_def)

lemma round_half_even_ge_floor: "\<lfloor>m\<rfloor> \<le> round_half_even m"
  by (simp add: round_half_even_def Let_def)

lemma round_half_even_le_ceiling: "round_half_even m \<le> \<lceil>m\<rceil>"
proof (cases "m = of_int \<lfloor>m\<rfloor>")
  case True
  then have "round_half_even m = \<lfloor>m\<rfloor>"
    by (metis round_half_even_of_int)
  then show ?thesis by (simp add: floor_le_ceiling)
next
  case False
  then have "\<lceil>m\<rceil> = \<lfloor>m\<rfloor> + 1" by (simp add: ceiling_altdef)
  then show ?thesis by (simp add: round_half_even_def Let_def)
qed

lemma round_half_even_up: "1 / 2 < m - of_int \<lfloor>m\<rfloor> \<Longrightarrow> round_half_even m = \<lfloor>m\<rfloor> + 1"
  by (simp add: round_half_even_def Let_def)

lemma fl_pos:
  "0 < x \<Longrightarrow> fl x = of_int (round_half_even (x / 2 powi (ilog2 x - 52))) * 2 powi (ilog2 x - 52)"
  by (simp add: fl_def Let_def)

lemma fl_minus: "fl (- x) = - fl x"
  by (simp add: fl_def Let_def sgn_minus)

lemma ilog2_less: "0 < x \<Longrightarrow> x < 2 powi k \<Longrightarrow> ilog2 x < k"
proof (rule ccontr)
  assume x: "0 < x" "x < 2 powi k" and "\<not> ilog2 x < k"
  then have "(2::rat) powi k \<le> 2 powi ilog2 x" by (intro power_int_increasing) auto
  with ilog2_bounds(1) [OF x(1)] x(2) show False by simp
qed

lemma ilog2_ge: "0 < x \<Longrightarrow> 2 powi k \<le> x \<Longrightarrow> k \<le> ilog2 x"
proof (rule ccontr)
  assume x: "0 < x" "2 powi k \<le> x" and "\<not> k \<le> ilog2 x"
  then have "(2::rat) powi (ilog2 x + 1) \<le> 2 powi k" by (intro power_int_increasing) auto
  with ilog2_bounds(2) [OF x(1)] x(2) show False by simp
qed

lemma powi_52_shift: "e \<le> 52 \<Longrightarrow> (2::rat) powi (e - 52) = 1 / 2 ^ nat (52 - e)"
proof -
  assume "e \<le> 52"
  have "(2::rat) powi (e - 52) = 2 powi (- (52 - e))" by simp
  also have "\<dots> = 1 / 2 powi (52 - e)" by (rule power_int_minus_divide)
  also have "\<dots> = 1 / 2 ^ nat (52 - e)" using \<open>e \<le> 52\<close> by (simp add: powi_nat)
  finally show ?thesis .
qed

lemma fl_of_int_pos:
  assumes "0 < n" "n < 2 ^ 53"
  shows "fl (of_int n) = of_int n"
proof -
  let ?x = "of_int n :: rat"
  have xpos: "0 < ?x" using assms by simp
  have "?x < 2 powi 53" using assms(2) by (simp add: of_int_less_numeral_power_cancel_iff)
  from ilog2_less [OF xpos this] have e: "ilog2 ?x \<le> 52" by simp
  define j where "j = nat (52 - ilog2 ?x)"
  have s: "(2::rat) powi (ilog2 ?x - 52) = 1 / 2 ^ j" unfolding j_def by (rule powi_52_shift [OF e])
  have m: "?x / (1 / 2 ^ j) = of_int (n * 2 ^ j)" by simp
  have "fl ?x = of_int (round_half_even (?x / (1 / 2 ^ j))) * (1 / 2 ^ j)"
    using fl_pos [OF xpos] by (simp only: s)
  also have "\<dots> = of_int (n * 2 ^ j) * (1 / 2 ^ j)"
    by (simp only: m round_half_even_of_int)
  also have "\<dots> = ?x" by simp
  finally show ?thesis .
qed

lemma fl_of_int:
  assumes "\<bar>n\<bar> < 2 ^ 53"
  shows "fl (of_int n) = of_int n"
proof -
  consider "n = 0" | "0 < n" | "n < 0" by linarith
  then show ?thesis
  proof cases
    case 1 then show ?thesis by (simp add: fl_def)
  next
    case 2 with assms show ?thesis by (intro fl_of_int_pos) auto
  next
    case 3
    with assms have "fl (of_int (- n)) = of_int (- n)" by (intro fl_of_int_pos) auto
    then show ?thesis using fl_minus [of "of_int n"] by simp
  qed
qed

lemma fl_of_nat: "n < 2 ^ 53 \<Longrightarrow> fl (of_nat n) = of_nat n"
  using fl_of_int [of "int n"] by (simp add: nat_less_numeral_power_cancel_iff)

lemma fl_range:
  assumes "0 < x"
  shows "2 powi ilog2 x \<le> fl x" "fl x \<le> 2 powi (ilog2 x + 1)"
proof -
  define s :: rat where "s = 2 powi (ilog2 x - 52)"
  have spos: "0 < s" by (simp add: s_def zero_less_power_int)
  have lo_s: "2 powi ilog2 x = 2 ^ 52 * s"
    by (simp add: s_def power_int_diff)
  have hi_s: "2 powi (ilog2 x + 1) = 2 ^ 53 * s"
    by (simp add: s_def power_int_diff power_int_add)
  have fx: "fl x = of_int (round_half_even (x / s)) * s"
    unfolding s_def by (rule fl_pos [OF assms])
  have "2 ^ 52 * s \<le> x" using ilog2_bounds(1) [OF assms] by (simp add: lo_s)
  then have "(2 ^ 52 :: rat) \<le> x / s" using spos by (simp add: pos_le_divide_eq)
  then have "(2 ^ 52 :: int) \<le> \<lfloor>x / s\<rfloor>" by (simp add: le_floor_iff)
  then have "(2 ^ 52 :: int) \<le> round_half_even (x / s)"
    using round_half_even_ge_floor [of "x / s"] by linarith
  then have "(of_int (2 ^ 52) :: rat) \<le> of_int (round_half_even (x / s))"
    by (simp only: of_int_le_iff)
  then have "2 ^ 52 * s \<le> fl x" unfolding fx using spos by simp
  then show "2 powi ilog2 x \<le> fl x" by (simp add: lo_s)
  have "x < 2 ^ 53 * s" using ilog2_bounds(2) [OF assms] by (simp add: hi_s)
  then have "x / s \<le> 2 ^ 53" using spos by (simp add: pos_divide_le_eq)
  then have "\<lceil>x / s\<rceil> \<le> (2 ^ 53 :: int)" by (simp add: ceiling_le_iff)
  then have "round_half_even (x / s) \<le> (2 ^ 53 :: int)"
    using round_half_even_le_ceiling [of "x / s"] by linarith
  then have "(of_int (round_half_even (x / s)) :: rat) \<le> of_int (2 ^ 53)"
    by (simp only: of_int_le_iff)
  then have "fl x \<le> 2 ^ 53 * s" unfolding fx using spos by simp
  then show "fl x \<le> 2 powi (ilog2 x + 1)" by (simp add: hi_s)
qed

text \<open>The quotient of two integers below \<open>2^53\<close>, rounded, has the ceiling of the exact quotient.\<close>

lemma ceiling_fl_divide:
  assumes a: "0 \<le> a" "a < 2 ^ 53" and b: "0 < b"
  shows "\<lceil>fl (of_int a / of_int b)\<rceil> = \<lceil>of_int a / of_int b :: rat\<rceil>"
proof (cases "a = 0")
  case True
  then show ?thesis by (simp add: fl_def)
next
  case False
  with a have apos: "0 < a" by simp
  define x :: rat where "x = of_int a / of_int b"
  define c where "c = \<lceil>x\<rceil>"
  have br: "(0::rat) < of_int b" using b by simp
  have xpos: "0 < x" using apos b by (simp add: x_def)
  have b1: "(1::rat) \<le> of_int b" using b by simp
  have "x \<le> of_int a" using apos b1 unfolding x_def
    by (simp add: pos_divide_le_eq br mult_le_cancel_left1)
  also have "(of_int a :: rat) < 2 powi 53" using a(2) by (simp add: of_int_less_numeral_power_cancel_iff)
  finally have e: "ilog2 x \<le> 52" using ilog2_less [OF xpos] by fastforce
  define j where "j = nat (52 - ilog2 x)"
  have s: "(2::rat) powi (ilog2 x - 52) = 1 / 2 ^ j" unfolding j_def by (rule powi_52_shift [OF e])
  define m :: rat where "m = x * 2 ^ j"
  have fx: "fl x = of_int (round_half_even m) / 2 ^ j"
    by (simp add: fl_pos [OF xpos] s m_def)
  \<comment> \<open>the divisor is below twice the scale\<close>
  have "of_int b * 2 powi ilog2 x \<le> of_int b * x"
    using ilog2_bounds(1) [OF xpos] br by simp
  also have "of_int b * x = of_int a" using br by (simp add: x_def)
  also have "(of_int a :: rat) < 2 ^ 53" using a(2) by simp
  finally have "of_int b * 2 powi ilog2 x < (2::rat) ^ 53" .
  moreover have "(2::rat) powi ilog2 x = 2 ^ 52 / 2 ^ j"
    using s by (simp add: power_int_diff)
  ultimately have bj: "of_int b < (2::rat) * 2 ^ j"
    by (simp add: pos_less_divide_eq [symmetric] field_simps)
  \<comment> \<open>the exact quotient is at least \<open>1 / b\<close> above the integer below it\<close>
  have cx: "of_int c - 1 < x" "x \<le> of_int c" unfolding c_def by linarith+
  have "of_int ((c - 1) * b) < (of_int a :: rat)"
    using cx(1) br by (simp add: x_def pos_less_divide_eq)
  then have "(c - 1) * b < a" by (simp only: of_int_less_iff)
  then have "(c - 1) * b + 1 \<le> a" by simp
  then have "(of_int ((c - 1) * b + 1) :: rat) \<le> of_int a" by (simp only: of_int_le_iff)
  then have "(of_int (c - 1) * of_int b + 1) / of_int b \<le> (of_int a :: rat) / of_int b"
    using br by (intro divide_right_mono) auto
  moreover have "(of_int (c - 1) * of_int b + 1) / of_int b = (of_int (c - 1) :: rat) + 1 / of_int b"
    using br by (simp add: add_divide_distrib)
  ultimately have gap: "of_int (c - 1) + 1 / of_int b \<le> x"
    by (simp only: x_def)
  define L where "L = (c - 1) * 2 ^ j"
  have "1 / 2 < 2 ^ j / (of_int b :: rat)"
    using bj br by (simp add: pos_less_divide_eq)
  also have "\<dots> = (1 / of_int b) * 2 ^ j" by simp
  also have "\<dots> \<le> (x - of_int (c - 1)) * 2 ^ j"
    using gap by (intro mult_right_mono) auto
  also have "\<dots> = m - of_int L" by (simp add: m_def L_def algebra_simps)
  finally have half: "1 / 2 < m - of_int L" .
  have lower: "L + 1 \<le> round_half_even m"
  proof (cases "L + 1 \<le> \<lfloor>m\<rfloor>")
    case True
    then show ?thesis using round_half_even_ge_floor [of m] by linarith
  next
    case False
    moreover have "L \<le> \<lfloor>m\<rfloor>" using half by (simp add: le_floor_iff)
    ultimately have fl: "\<lfloor>m\<rfloor> = L" by linarith
    with half show ?thesis by (simp add: round_half_even_up)
  qed
  have "m \<le> of_int (c * 2 ^ j)" using cx(2) by (simp add: m_def)
  then have "\<lceil>m\<rceil> \<le> c * 2 ^ j" by (simp only: ceiling_le_iff)
  then have upper: "round_half_even m \<le> c * 2 ^ j"
    using round_half_even_le_ceiling [of m] by linarith
  have "L < round_half_even m" using lower by simp
  then have "(of_int L :: rat) < of_int (round_half_even m)"
    by (simp only: of_int_less_iff)
  then have "(of_int c - 1) * 2 ^ j < (of_int (round_half_even m) :: rat)"
    by (simp add: L_def)
  then have "of_int c - 1 < fl x"
    unfolding fx by (simp only: pos_less_divide_eq zero_less_power zero_less_numeral)
  moreover have "(of_int (round_half_even m) :: rat) \<le> of_int (c * 2 ^ j)"
    using upper by (simp only: of_int_le_iff)
  then have "fl x \<le> of_int c"
    unfolding fx by (simp add: pos_divide_le_eq)
  ultimately have "\<lceil>fl x\<rceil> = c" by (rule ceiling_unique)
  then show ?thesis by (simp add: x_def c_def)
qed

lemma double_of_ulong_unat: "double_of_ulong w = Finite (fl (of_nat (unat w)))"
  by (simp add: double_of_ulong_def)

lemma trunc_of_int: "trunc (of_int c) = c"
  by (simp add: trunc_def)

lemma ceiling_fl_divide_nat:
  "a < 2 ^ 53 \<Longrightarrow> 0 < b \<Longrightarrow> \<lceil>fl (of_nat a / of_nat b)\<rceil> = \<lceil>of_nat a / of_nat b :: rat\<rceil>"
  using ceiling_fl_divide [of "int a" "int b"] by simp

lemma ceiling_fl_divide_large:
  assumes d: "d < 2 ^ 53" and u: "(2::nat) ^ 53 \<le> u"
  shows "fl (of_nat u) \<noteq> 0"
    and "\<lceil>fl (of_nat d / fl (of_nat u))\<rceil> = \<lceil>of_nat d / of_nat u :: rat\<rceil>"
proof -
  let ?u = "of_nat u :: rat"
  have "0 < u" using u by (rule less_le_trans [rotated]) simp
  then have upos: "0 < ?u" by simp
  have "(2::rat) powi 53 \<le> ?u" using u
    by (simp add: numeral_power_le_of_nat_cancel_iff)
  from ilog2_ge [OF upos this] have "(2::rat) powi 53 \<le> 2 powi ilog2 ?u"
    by (intro power_int_increasing) auto
  with fl_range(1) [OF upos] have U: "(2::rat) ^ 53 \<le> fl ?u" by simp
  then show "fl ?u \<noteq> 0" by auto
  have Upos: "0 < fl ?u" using U by (rule less_le_trans [rotated]) simp
  show "\<lceil>fl (of_nat d / fl ?u)\<rceil> = \<lceil>of_nat d / of_nat u :: rat\<rceil>"
  proof (cases "d = 0")
    case True
    then show ?thesis by (simp add: fl_def)
  next
    case False
    define q :: rat where "q = of_nat d / fl ?u"
    have dr: "(of_nat d :: rat) < 2 ^ 53" using d by (simp add: of_nat_less_numeral_power_cancel_iff)
    have qpos: "0 < q" using False Upos by (simp add: q_def)
    have "of_nat d < fl ?u" using dr U by simp
    then have "q < 2 powi 0" using Upos by (simp add: q_def)
    from ilog2_less [OF qpos this] have "(2::rat) powi (ilog2 q + 1) \<le> 2 powi 0"
      by (intro power_int_increasing) auto
    with fl_range(2) [OF qpos] have le1: "fl q \<le> 1" by simp
    have "0 < (2::rat) powi ilog2 q" by (simp add: zero_less_power_int)
    then have gt0: "0 < fl q" using fl_range(1) [OF qpos] by (rule less_le_trans)
    have c1: "\<lceil>fl q\<rceil> = 1" using le1 gt0 by (intro ceiling_unique) auto
    have "(of_nat d :: rat) < of_nat u" using d u by (simp only: of_nat_less_iff)
    then have "(of_nat d :: rat) / of_nat u \<le> 1" "0 < (of_nat d :: rat) / of_nat u"
      using upos False by auto
    then have "\<lceil>of_nat d / of_nat u :: rat\<rceil> = 1" by (intro ceiling_unique) auto
    with c1 show ?thesis by (simp add: q_def)
  qed
qed

text \<open>
  The number of requests \<open>(unsigned long)ceil((double)d / (double)u)\<close> is the exact
  \<open>\<lceil>d / u\<rceil>\<close> for a duration \<open>d\<close> below \<open>2^53\<close> and a unit \<open>u \<noteq> 0\<close>.
\<close>

lemma numRequests_exact:
  assumes u: "u \<noteq> 0" and d: "unat d < 2 ^ 53"
  shows "ulong_of_double oor (double_ceil (double_div (double_of_ulong d) (double_of_ulong u)))
         = word_of_int \<lceil>of_nat (unat d) / of_nat (unat u) :: rat\<rceil>"
proof -
  define c where "c = \<lceil>of_nat (unat d) / of_nat (unat u) :: rat\<rceil>"
  have upos: "0 < unat u" using u by (simp add: unat_gt_0)
  have D: "fl (of_nat (unat d)) = of_nat (unat d)" using d by (rule fl_of_nat)
  have key: "fl (of_nat (unat u)) \<noteq> 0
             \<and> \<lceil>fl (of_nat (unat d) / fl (of_nat (unat u)))\<rceil> = c"
  proof (cases "unat u < 2 ^ 53")
    case True
    then have U: "fl (of_nat (unat u)) = of_nat (unat u)" by (rule fl_of_nat)
    have "\<lceil>fl (of_nat (unat d) / of_nat (unat u))\<rceil>
          = \<lceil>of_nat (unat d) / of_nat (unat u) :: rat\<rceil>"
      using d upos by (rule ceiling_fl_divide_nat)
    then show ?thesis using upos by (simp add: U c_def del: of_nat_unat)
  next
    case False
    then have "(2::nat) ^ 53 \<le> unat u" by simp
    from ceiling_fl_divide_large [OF d this] show ?thesis by (simp add: c_def del: of_nat_unat)
  qed
  have "(0::rat) \<le> of_nat (unat d) / of_nat (unat u)" by (rule divide_nonneg_nonneg) (simp_all del: of_nat_unat)
  then have c0: "0 \<le> c" unfolding c_def using ceiling_mono [of 0 "of_nat (unat d) / of_nat (unat u) :: rat"]
    by (simp del: of_nat_unat)
  have "(of_nat (unat d) :: rat) / of_nat (unat u) \<le> of_nat (unat d)"
    using upos by (simp add: divide_le_eq_1 pos_divide_le_eq mult_le_cancel_left1 del: of_nat_unat)
  then have "c \<le> int (unat d)" unfolding c_def by (simp add: ceiling_le_iff del: of_nat_unat)
  moreover have "int (unat d) < 2 ^ 53" using d by (simp only: of_nat_less_numeral_power_cancel_iff)
  ultimately have "c < 2 ^ 53" by (rule le_less_trans)
  then have c64: "c < 2 ^ 64" by simp
  show ?thesis
    using key c0 c64
    by (simp add: double_of_ulong_unat D trunc_of_int c_def [symmetric] del: of_nat_unat)
qed


section \<open>The loop of SplitRequestedTemporalRegion\<close>

lemma unat_uint_bound: "unat (i :: uint) < 2 ^ 32"
  using unsigned_less [of i, where 'a = nat] by simp

lemma unat_ucast_uint: "unat (ucast (i :: uint) :: ulong) = unat i"
proof -
  have "unat i < 2 ^ 64" using unat_uint_bound [of i] by simp
  then show ?thesis by (simp add: unsigned_ucast_eq take_bit_nat_eq_self)
qed

lemma unat_ucast_ulong: "unat (ucast (w :: ulong) :: uint) = unat w mod 2 ^ 32"
  by (simp add: unsigned_ucast_eq take_bit_eq_mod)

lemma ucast_uint_less: "(ucast (i :: uint) < (N :: ulong)) = (unat i < unat N)"
  by (simp add: word_less_nat_alt unat_ucast_uint)

lemma split_loop_Some_bound:
  assumes "split_loop p N i st acc = Some y" shows "unat N < 2 ^ 32"
  using assms
proof (rule split_loop.raw_induct [rotated, where P = "\<lambda>p N i st acc y. unat N < 2 ^ 32"])
  fix f :: "TemporalProcessObject \<Rightarrow> ulong \<Rightarrow> uint \<Rightarrow> ulong \<Rightarrow> TemporalRegion list \<Rightarrow> TemporalRegion list option"
    and p N i st acc y
  assume IH: "\<And>p N i st acc y. f p N i st acc = Some y \<Longrightarrow> unat N < 2 ^ 32"
    and eq: "(if ucast i < N
              then f p N (i + 1) (st + FrameSkipPerOutput p)
                     (acc @ [\<lparr>FrameStart = st, FrameDuration = UnitInputNumberOfFrames p\<rparr>])
              else Some acc) = Some y"
  show "unat N < 2 ^ 32"
  proof (cases "ucast i < N")
    case True
    with eq IH show ?thesis by simp
  next
    case False
    then have "unat N \<le> unat i" by (simp add: ucast_uint_less)
    moreover have "unat i < 2 ^ 32" by (rule unat_uint_bound)
    ultimately show ?thesis by linarith
  qed
qed

lemma split_loop_diverges: "2 ^ 32 \<le> unat N \<Longrightarrow> split_loop p N i st acc = None"
  using split_loop_Some_bound [of p N i st acc] by (cases "split_loop p N i st acc") auto

lemma split_loop_returns:
  assumes "unat N < 2 ^ 32" "unat i \<le> unat N"
  shows "split_loop p N i st acc =
         Some (acc @ map (\<lambda>j. \<lparr>FrameStart = st + of_nat j * FrameSkipPerOutput p,
                                FrameDuration = UnitInputNumberOfFrames p\<rparr>)
                         [0..<unat N - unat i])"
  using assms
proof (induction "unat N - unat i" arbitrary: i st acc)
  case 0
  then have "\<not> ucast i < N" by (simp add: ucast_uint_less)
  then show ?case using 0 by (subst split_loop.simps) simp
next
  case (Suc n)
  let ?r = "\<lambda>s j. \<lparr>FrameStart = s + of_nat j * FrameSkipPerOutput p,
                     FrameDuration = UnitInputNumberOfFrames p\<rparr>"
  from Suc have lt: "unat i < unat N" by linarith
  then have c: "ucast i < N" by (simp add: ucast_uint_less)
  have i1: "unat (i + 1) = unat i + 1"
    using lt Suc.prems(1) by (simp add: unat_word_ariths)
  have n: "n = unat N - unat (i + 1)" using Suc.hyps(2) i1 by linarith
  have le: "unat (i + 1) \<le> unat N" using lt i1 by linarith
  have up: "[0..<unat N - unat i] = 0 # map Suc [0..<n]"
    using Suc.hyps(2) by (metis map_Suc_upt upt_conv_Cons zero_less_Suc)
  have shift: "map (?r st) (map Suc [0..<n]) = map (?r (st + FrameSkipPerOutput p)) [0..<n]"
    by (simp add: algebra_simps)
  have "split_loop p N i st acc =
        split_loop p N (i + 1) (st + FrameSkipPerOutput p)
          (acc @ [\<lparr>FrameStart = st, FrameDuration = UnitInputNumberOfFrames p\<rparr>])"
    using c by (subst split_loop.simps) simp
  also have "\<dots> = Some ((acc @ [\<lparr>FrameStart = st, FrameDuration = UnitInputNumberOfFrames p\<rparr>])
                        @ map (?r (st + FrameSkipPerOutput p)) [0..<n])"
    using Suc.hyps(1) [OF n Suc.prems(1) le] by (simp only: n [symmetric])
  also have "\<dots> = Some (acc @ map (?r st) [0..<unat N - unat i])"
    unfolding up by (simp only: list.map shift [symmetric]) simp
  finally show ?case .
qed


section \<open>The region requests of TemporalProcessObject\<close>

subsection \<open>GenerateInputRequestedTemporalRegion\<close>

lemma GenerateInputRequestedTemporalRegion_result:
  assumes "Output0 p = Temporal output" "Input0 p = Temporal input"
    and "0 \<le> sint (FrameStart (RequestedTemporalRegion output) - InputStencilCurrentFrameIndex p)"
  shows "GenerateInputRequestedTemporalRegion oor p =
         Inr (p\<lparr>Input0 := Temporal (input\<lparr>RequestedTemporalRegion :=
           \<lparr>FrameStart = FrameStart (RequestedTemporalRegion output) - InputStencilCurrentFrameIndex p,
            FrameDuration =
              FrameSkipPerOutput p
                * (ulong_of_double oor
                     (double_ceil (double_div
                        (double_of_ulong (FrameDuration (RequestedTemporalRegion output)))
                        (double_of_ulong (UnitOutputNumberOfFrames p)))) - 1)
                + UnitInputNumberOfFrames p\<rparr>\<rparr>)\<rparr>)"
  using assms by (simp add: GenerateInputRequestedTemporalRegion_def Let_def)

text \<open>
  C1, as amended. Whenever input(0) and output(0) are temporal data objects, the unit of
  the output is not \<open>0\<close>, the requested duration \<open>d\<close> of the output is below \<open>2^53\<close> and
  the computed start \<open>s - InputStencilCurrentFrameIndex\<close> is not negative, the function
  sets the requested region of the input to that start and to the duration
  \<open>FrameSkipPerOutput * (\<lceil>d / UnitOutputNumberOfFrames\<rceil> - 1) + UnitInputNumberOfFrames\<close>
  (in 64-bit arithmetic); with units \<open>1\<close> and \<open>3\<close>, skip \<open>1\<close>, stencil index \<open>1\<close> and the
  request \<open>[5, 1)\<close> the input is asked for \<open>[4, 3)\<close>.
\<close>

theorem GenerateInputRequestedTemporalRegion_sets_input:
  assumes "Output0 p = Temporal output" "Input0 p = Temporal input"
    and "UnitOutputNumberOfFrames p \<noteq> 0"
    and "unat (FrameDuration (RequestedTemporalRegion output)) < 2 ^ 53"
    and "0 \<le> sint (FrameStart (RequestedTemporalRegion output) - InputStencilCurrentFrameIndex p)"
  shows "GenerateInputRequestedTemporalRegion oor p =
         Inr (p\<lparr>Input0 := Temporal (input\<lparr>RequestedTemporalRegion :=
           \<lparr>FrameStart = FrameStart (RequestedTemporalRegion output) - InputStencilCurrentFrameIndex p,
            FrameDuration =
              FrameSkipPerOutput p
                * (word_of_int \<lceil>of_nat (unat (FrameDuration (RequestedTemporalRegion output)))
                                 / of_nat (unat (UnitOutputNumberOfFrames p)) :: rat\<rceil> - 1)
                + UnitInputNumberOfFrames p\<rparr>\<rparr>)\<rparr>)"
  using GenerateInputRequestedTemporalRegion_result [OF assms(1,2,5), of oor]
  by (simp only: numRequests_exact [OF assms(3,4)])

theorem GenerateInputRequestedTemporalRegion_sets_input_witness:
  "GenerateInputRequestedTemporalRegion oor_zero
     (stage 3 1 1 1 (requesting (region 0 0)) (requesting (region 5 1)))
   = Inr (stage 3 1 1 1 (requesting (region 4 3)) (requesting (region 5 1)))"
proof -
  let ?out = "\<lparr>LargestPossibleTemporalRegion = region 0 0, RequestedTemporalRegion = region 5 1,
               BufferedTemporalRegion = region 0 0\<rparr>"
  let ?inp = "\<lparr>LargestPossibleTemporalRegion = region 0 0, RequestedTemporalRegion = region 0 0,
               BufferedTemporalRegion = region 0 0\<rparr>"
  show ?thesis
    using GenerateInputRequestedTemporalRegion_sets_input
            [of "stage 3 1 1 1 (requesting (region 0 0)) (requesting (region 5 1))" ?out ?inp oor_zero]
    by (simp add: stage_def requesting_def region_def)
qed

text \<open>
  On the path that sets the region: the requested duration \<open>2^53 + 1\<close> becomes \<open>2^53\<close> as
  a \<open>double\<close>, so with the units \<open>3\<close> and \<open>1\<close>, skip \<open>1\<close>, stencil index \<open>1\<close> and the
  request \<open>[5, 2^53 + 1)\<close> the input is asked for \<open>2^53 + 2\<close> frames from frame \<open>4\<close>; the
  formula gives \<open>1 * (2^53 + 1 - 1) + 3 = 2^53 + 3\<close>.
\<close>

theorem GenerateInputRequestedTemporalRegion_duration_counterexample:
  "GenerateInputRequestedTemporalRegion oor_zero
     (stage 3 1 1 1 (requesting (region 0 0)) (requesting (region 5 9007199254740993)))
   = Inr (stage 3 1 1 1 (requesting (region 4 9007199254740994))
            (requesting (region 5 9007199254740993)))
   \<and> spec_input_duration
         (stage 3 1 1 1 (requesting (region 0 0)) (requesting (region 5 9007199254740993)))
         (region 5 9007199254740993) = 9007199254740995"
proof -
  have a: "fl 9007199254740993 = 9007199254740992" by code_simp
  have b: "fl 9007199254740992 = 9007199254740992" by code_simp
  have c: "fl 1 = 1" using fl_of_nat [of 1] by simp
  have N: "ulong_of_double oor_zero
             (double_ceil (double_div (double_of_ulong 9007199254740993) (double_of_ulong 1)))
           = 9007199254740992"
    by (simp add: double_of_ulong_unat a b c trunc_def)
  have run: "GenerateInputRequestedTemporalRegion oor_zero
     (stage 3 1 1 1 (requesting (region 0 0)) (requesting (region 5 9007199254740993)))
   = Inr (stage 3 1 1 1 (requesting (region 4 9007199254740994))
            (requesting (region 5 9007199254740993)))"
    by (simp add: GenerateInputRequestedTemporalRegion_def stage_def requesting_def region_def N)
  have "spec_input_duration
         (stage 3 1 1 1 (requesting (region 0 0)) (requesting (region 5 9007199254740993)))
         (region 5 9007199254740993) = 9007199254740995"
    by (simp add: spec_input_duration_def stage_def region_def)
  with run show ?thesis by simp
qed

text \<open>
  C2. Whenever the computed start \<open>s - InputStencilCurrentFrameIndex\<close> of the input region is
  negative, the function raises \<open>InvalidRegion\<close>: it returns no state, so the start is not
  clamped and the requested region of the input is not set. The request \<open>[0, 1)\<close> with
  stencil index \<open>1\<close> fails so, the computed start being \<open>-1\<close>.
\<close>

theorem GenerateInputRequestedTemporalRegion_negative_start:
  assumes "Output0 p = Temporal output"
    and "sint (FrameStart (RequestedTemporalRegion output) - InputStencilCurrentFrameIndex p) < 0"
  shows "GenerateInputRequestedTemporalRegion oor p = Inl InvalidRegion"
  using assms by (simp add: GenerateInputRequestedTemporalRegion_def Let_def)

theorem GenerateInputRequestedTemporalRegion_negative_start_witness:
  "sint ((0 :: ulong) - 1) = - 1
   \<and> GenerateInputRequestedTemporalRegion oor_zero
       (stage 3 1 1 1 (requesting (region 0 0)) (requesting (region 0 1))) = Inl InvalidRegion"
proof -
  let ?out = "\<lparr>LargestPossibleTemporalRegion = region 0 0, RequestedTemporalRegion = region 0 1,
               BufferedTemporalRegion = region 0 0\<rparr>"
  show ?thesis
    using GenerateInputRequestedTemporalRegion_negative_start
            [of "stage 3 1 1 1 (requesting (region 0 0)) (requesting (region 0 1))" ?out oor_zero]
    by (simp add: stage_def requesting_def region_def)
qed

text \<open>
  C8. When the computed start is not negative, a call of the function succeeds, and a
  second call on the state it leaves, with the same request of the output and the same
  parameters, leaves that state as it is: the requested region of the input stays the one
  of the first call.
\<close>

theorem GenerateInputRequestedTemporalRegion_idempotent:
  assumes "Output0 p = Temporal output" "Input0 p = Temporal input"
    and "0 \<le> sint (FrameStart (RequestedTemporalRegion output) - InputStencilCurrentFrameIndex p)"
  shows "\<exists>p'. GenerateInputRequestedTemporalRegion oor p = Inr p'
              \<and> GenerateInputRequestedTemporalRegion oor p' = Inr p'"
proof -
  let ?r = "\<lparr>FrameStart = FrameStart (RequestedTemporalRegion output) - InputStencilCurrentFrameIndex p,
            FrameDuration =
              FrameSkipPerOutput p
                * (ulong_of_double oor
                     (double_ceil (double_div
                        (double_of_ulong (FrameDuration (RequestedTemporalRegion output)))
                        (double_of_ulong (UnitOutputNumberOfFrames p)))) - 1)
                + UnitInputNumberOfFrames p\<rparr>"
  let ?i = "input\<lparr>RequestedTemporalRegion := ?r\<rparr>"
  let ?p = "p\<lparr>Input0 := Temporal ?i\<rparr>"
  have first: "GenerateInputRequestedTemporalRegion oor p = Inr ?p"
    by (rule GenerateInputRequestedTemporalRegion_result [OF assms])
  have "GenerateInputRequestedTemporalRegion oor ?p =
        Inr (?p\<lparr>Input0 := Temporal (?i\<lparr>RequestedTemporalRegion := ?r\<rparr>)\<rparr>)"
    using GenerateInputRequestedTemporalRegion_result [of ?p "output" ?i oor] assms by simp
  then have "GenerateInputRequestedTemporalRegion oor ?p = Inr ?p" by simp
  with first show ?thesis by blast
qed

theorem GenerateInputRequestedTemporalRegion_idempotent_witness:
  "\<exists>p'. GenerateInputRequestedTemporalRegion oor_zero
           (stage 3 1 1 1 (requesting (region 0 0)) (requesting (region 5 1))) = Inr p'
        \<and> GenerateInputRequestedTemporalRegion oor_zero p' = Inr p'"
proof -
  let ?out = "\<lparr>LargestPossibleTemporalRegion = region 0 0, RequestedTemporalRegion = region 5 1,
               BufferedTemporalRegion = region 0 0\<rparr>"
  let ?inp = "\<lparr>LargestPossibleTemporalRegion = region 0 0, RequestedTemporalRegion = region 0 0,
               BufferedTemporalRegion = region 0 0\<rparr>"
  show ?thesis
    using GenerateInputRequestedTemporalRegion_idempotent
            [of "stage 3 1 1 1 (requesting (region 0 0)) (requesting (region 5 1))" ?out ?inp oor_zero]
    by (simp add: stage_def requesting_def region_def)
qed

subsection \<open>GenerateInputRequestedRegion\<close>

text \<open>The check looks at output(0) only.\<close>

lemma GenerateInputRequestedRegion_checks_output:
  "GenerateInputRequestedRegion oor p =
     (if Output0 p = NonTemporal then Inl TypeMismatch
      else GenerateInputRequestedTemporalRegion oor p)"
  by (simp add: GenerateInputRequestedRegion_def Let_def)

text \<open>
  C6. The claim is that the function raises \<open>TypeMismatch\<close> when input(0) is not a temporal
  data object. The code casts output(0) twice and never looks at input(0): with a temporal
  output and another kind of input it goes on to \<open>GenerateInputRequestedTemporalRegion\<close>,
  which calls through the null pointer.
\<close>

theorem GenerateInputRequestedRegion_input_unchecked:
  "GenerateInputRequestedRegion oor_zero (stage 3 1 1 1 NonTemporal (requesting (region 5 1)))
   = Inl UndefinedBehaviour"
  by (simp add: GenerateInputRequestedRegion_def GenerateInputRequestedTemporalRegion_def
        stage_def requesting_def region_def)

subsection \<open>SplitRequestedTemporalRegion\<close>

lemma SplitRequestedTemporalRegion_loop:
  assumes "Output0 p = Temporal outputObject"
  shows "SplitRequestedTemporalRegion g oor p =
         map_option Inr
           (split_loop p
              (ulong_of_double oor
                 (double_ceil (double_div (double_of_ulong (FrameDuration (g outputObject)))
                                          (double_of_ulong (UnitOutputNumberOfFrames p)))))
              0
              (if 0 < sint (FrameSkipPerOutput p) then FrameStart (g outputObject)
               else if sint (FrameSkipPerOutput p) < 0
               then FrameStart (g outputObject) + FrameDuration (g outputObject)
                      - UnitOutputNumberOfFrames p
               else 1)
              [])"
  using assms by (simp add: SplitRequestedTemporalRegion_def Let_def)

lemma split_loop_from_zero:
  "unat N < 2 ^ 32 \<Longrightarrow>
   split_loop p N 0 st [] =
     Some (map (\<lambda>j. \<lparr>FrameStart = st + of_nat j * FrameSkipPerOutput p,
                      FrameDuration = UnitInputNumberOfFrames p\<rparr>) [0..<unat N])"
  using split_loop_returns [of N 0 p st "[]"] by simp

text \<open>
  With a duration below \<open>2^53\<close> and fewer than \<open>2^32\<close> requests the function returns the
  windows \<open>0, \<dots>, \<lceil>d / u\<rceil> - 1\<close>.
\<close>

lemma SplitRequestedTemporalRegion_windows:
  assumes out: "Output0 p = Temporal outputObject"
    and u: "UnitOutputNumberOfFrames p \<noteq> 0"
    and d: "unat (FrameDuration (g outputObject)) < 2 ^ 53"
    and c: "\<lceil>of_nat (unat (FrameDuration (g outputObject)))
             / of_nat (unat (UnitOutputNumberOfFrames p)) :: rat\<rceil> < 2 ^ 32"
  shows "SplitRequestedTemporalRegion g oor p =
         Some (Inr (map (\<lambda>j. \<lparr>FrameStart =
                                  (if 0 < sint (FrameSkipPerOutput p) then FrameStart (g outputObject)
                                   else if sint (FrameSkipPerOutput p) < 0
                                   then FrameStart (g outputObject) + FrameDuration (g outputObject)
                                          - UnitOutputNumberOfFrames p
                                   else 1) + of_nat j * FrameSkipPerOutput p,
                                FrameDuration = UnitInputNumberOfFrames p\<rparr>)
                        [0..<nat \<lceil>of_nat (unat (FrameDuration (g outputObject)))
                                  / of_nat (unat (UnitOutputNumberOfFrames p)) :: rat\<rceil>]))"
proof -
  define c where "c = \<lceil>of_nat (unat (FrameDuration (g outputObject)))
                        / of_nat (unat (UnitOutputNumberOfFrames p)) :: rat\<rceil>"
  have "(0::rat) \<le> of_nat (unat (FrameDuration (g outputObject)))
                    / of_nat (unat (UnitOutputNumberOfFrames p))"
    by (rule divide_nonneg_nonneg) (simp_all del: of_nat_unat)
  then have c0: "0 \<le> c" unfolding c_def
    using ceiling_mono [of 0 "of_nat (unat (FrameDuration (g outputObject)))
                              / of_nat (unat (UnitOutputNumberOfFrames p)) :: rat"]
    by (simp del: of_nat_unat)
  have c32: "c < 2 ^ 32" using c by (simp only: c_def)
  have "uint (word_of_int c :: ulong) = c"
    using c0 c32 by (simp add: uint_word_of_int take_bit_int_eq_self)
  then have un: "unat (word_of_int c :: ulong) = nat c" by (simp add: unat_eq_nat_uint)
  then have lt: "unat (word_of_int c :: ulong) < 2 ^ 32" using c0 c32 by simp
  show ?thesis
    unfolding SplitRequestedTemporalRegion_loop [OF out] numRequests_exact [OF u d]
    unfolding c_def [symmetric]
    by (simp only: split_loop_from_zero [OF lt] un option.map)
qed

lemma SplitRequestedTemporalRegion_returned:
  assumes out: "Output0 p = Temporal outputObject"
    and ret: "SplitRequestedTemporalRegion g oor p = Some (Inr ws)"
  shows "\<exists>n. ws = map (\<lambda>j. \<lparr>FrameStart =
                                  (if 0 < sint (FrameSkipPerOutput p) then FrameStart (g outputObject)
                                   else if sint (FrameSkipPerOutput p) < 0
                                   then FrameStart (g outputObject) + FrameDuration (g outputObject)
                                          - UnitOutputNumberOfFrames p
                                   else 1) + of_nat j * FrameSkipPerOutput p,
                                FrameDuration = UnitInputNumberOfFrames p\<rparr>) [0..<n]"
proof -
  let ?N = "ulong_of_double oor
              (double_ceil (double_div (double_of_ulong (FrameDuration (g outputObject)))
                                       (double_of_ulong (UnitOutputNumberOfFrames p))))"
  let ?st = "if 0 < sint (FrameSkipPerOutput p) then FrameStart (g outputObject)
             else if sint (FrameSkipPerOutput p) < 0
             then FrameStart (g outputObject) + FrameDuration (g outputObject)
                    - UnitOutputNumberOfFrames p
             else 1"
  from ret have run: "split_loop p ?N 0 ?st [] = Some ws"
    unfolding SplitRequestedTemporalRegion_loop [OF out] by auto
  then have "unat ?N < 2 ^ 32" by (rule split_loop_Some_bound)
  from split_loop_from_zero [OF this, of p ?st] run show ?thesis by auto
qed

text \<open>
  With \<open>2^32\<close> requests or more the counter wraps around before it reaches the bound, and
  the function does not return.
\<close>

lemma SplitRequestedTemporalRegion_diverges:
  assumes "Output0 p = Temporal outputObject"
    and "2 ^ 32 \<le> unat (ulong_of_double oor
                 (double_ceil (double_div (double_of_ulong (FrameDuration (g outputObject)))
                                          (double_of_ulong (UnitOutputNumberOfFrames p)))))"
  shows "SplitRequestedTemporalRegion g oor p = None"
  unfolding SplitRequestedTemporalRegion_loop [OF assms(1)]
  by (simp add: split_loop_diverges [OF assms(2)])

text \<open>
  C3, as amended. For an unbuffered region with start \<open>s\<close> and a duration \<open>d\<close> below \<open>2^53\<close>
  that makes fewer than \<open>2^32\<close> requests, the \<open>i\<close>-th window starts at \<open>s + i * k\<close> when
  \<open>FrameSkipPerOutput = k > 0\<close> and at \<open>s + d - UnitOutputNumberOfFrames + i * k\<close> when \<open>k < 0\<close>
  (the unit of the output, not of the input), modulo \<open>2^64\<close>.
\<close>

theorem SplitRequestedTemporalRegion_window_starts:
  assumes "Output0 p = Temporal outputObject"
    and "UnitOutputNumberOfFrames p \<noteq> 0"
    and "unat (FrameDuration (g outputObject)) < 2 ^ 53"
    and "\<lceil>of_nat (unat (FrameDuration (g outputObject)))
           / of_nat (unat (UnitOutputNumberOfFrames p)) :: rat\<rceil> < 2 ^ 32"
    and "FrameSkipPerOutput p \<noteq> 0"
  shows "\<exists>ws. SplitRequestedTemporalRegion g oor p = Some (Inr ws)
           \<and> length ws = nat \<lceil>of_nat (unat (FrameDuration (g outputObject)))
                                / of_nat (unat (UnitOutputNumberOfFrames p)) :: rat\<rceil>
           \<and> (\<forall>i < length ws.
                 FrameStart (ws ! i) =
                   (if 0 < sint (FrameSkipPerOutput p)
                    then FrameStart (g outputObject) + of_nat i * FrameSkipPerOutput p
                    else FrameStart (g outputObject) + FrameDuration (g outputObject)
                           - UnitOutputNumberOfFrames p + of_nat i * FrameSkipPerOutput p))"
proof -
  have k: "sint (FrameSkipPerOutput p) \<noteq> 0" using assms(5) by (simp add: signed_eq_0_iff)
  show ?thesis
    unfolding SplitRequestedTemporalRegion_windows [of p outputObject g oor, OF assms(1-4)]
    using k by auto
qed

theorem SplitRequestedTemporalRegion_window_starts_witness:
  "SplitRequestedTemporalRegion RequestedTemporalRegion oor_zero
     (stage 3 1 (- 1) 0 NonTemporal (requesting (region 10 2)))
   = Some (Inr [region 11 3, region 10 3])"
proof -
  let ?out = "\<lparr>LargestPossibleTemporalRegion = region 0 0, RequestedTemporalRegion = region 10 2,
               BufferedTemporalRegion = region 0 0\<rparr>"
  let ?p = "stage 3 1 (- 1) 0 NonTemporal (requesting (region 10 2))"
  from SplitRequestedTemporalRegion_window_starts [of ?p ?out RequestedTemporalRegion oor_zero]
  obtain ws where ws: "SplitRequestedTemporalRegion RequestedTemporalRegion oor_zero ?p = Some (Inr ws)"
    "length ws = 2" "FrameStart (ws ! 0) = 11" "FrameStart (ws ! 1) = 10"
    by (auto simp add: stage_def requesting_def region_def)
  from SplitRequestedTemporalRegion_returned [OF _ ws(1), of ?out]
  obtain n where n: "ws = map (\<lambda>j. \<lparr>FrameStart = 11 + of_nat j * (- 1), FrameDuration = 3\<rparr>) [0..<n]"
    by (auto simp add: stage_def requesting_def region_def)
  with ws(2) have "n = 2" by simp
  moreover have "[0..<2::nat] = [0, 1]" by (simp add: upt_rec)
  ultimately have "ws = [region 11 3, region 10 3]"
    using n by (simp add: region_def)
  with ws(1) show ?thesis by simp
qed

text \<open>
  With units \<open>3\<close> (input) and \<open>1\<close> (output), skip \<open>-1\<close> and the unbuffered region \<open>[20, 2)\<close>
  the first window starts at \<open>20 + 2 - 1 = 21\<close>; the specification says \<open>20 + 2 - 3 = 19\<close>.
\<close>

theorem SplitRequestedTemporalRegion_reverse_counterexample:
  "SplitRequestedTemporalRegion RequestedTemporalRegion oor_zero
     (stage 3 1 (- 1) 0 NonTemporal (requesting (region 20 2)))
   = Some (Inr [region 21 3, region 20 3])
   \<and> spec_window_start (stage 3 1 (- 1) 0 NonTemporal (requesting (region 20 2))) (region 20 2) 0 = 19"
proof -
  have "double_of_ulong 2 = Finite 2" "double_of_ulong 1 = Finite 1"
    using fl_of_nat [of 2] fl_of_nat [of 1] by (simp_all add: double_of_ulong_unat)
  moreover have "fl 2 = 2" using fl_of_nat [of 2] by simp
  ultimately show ?thesis
    by (simp add: SplitRequestedTemporalRegion_def spec_window_start_def stage_def requesting_def
          region_def trunc_def split_loop.simps)
qed

text \<open>
  C5, as amended. For an unbuffered region whose duration \<open>d\<close> is below \<open>2^53\<close> and a unit
  \<open>u > 0\<close> of the output with \<open>\<lceil>d / u\<rceil> < 2^32\<close>, the function returns exactly
  \<open>\<lceil>d / u\<rceil>\<close> windows, each of duration \<open>UnitInputNumberOfFrames\<close>.
\<close>

theorem SplitRequestedTemporalRegion_count:
  assumes "Output0 p = Temporal outputObject"
    and "UnitOutputNumberOfFrames p \<noteq> 0"
    and "unat (FrameDuration (g outputObject)) < 2 ^ 53"
    and "\<lceil>of_nat (unat (FrameDuration (g outputObject)))
           / of_nat (unat (UnitOutputNumberOfFrames p)) :: rat\<rceil> < 2 ^ 32"
  shows "\<exists>ws. SplitRequestedTemporalRegion g oor p = Some (Inr ws)
           \<and> length ws = nat \<lceil>of_nat (unat (FrameDuration (g outputObject)))
                                / of_nat (unat (UnitOutputNumberOfFrames p)) :: rat\<rceil>
           \<and> (\<forall>w \<in> set ws. FrameDuration w = UnitInputNumberOfFrames p)"
  unfolding SplitRequestedTemporalRegion_windows [of p outputObject g oor, OF assms]
  by auto

theorem SplitRequestedTemporalRegion_count_witness:
  "\<exists>ws. SplitRequestedTemporalRegion RequestedTemporalRegion oor_zero
           (stage 3 2 1 0 NonTemporal (requesting (region 10 4))) = Some (Inr ws)
        \<and> length ws = 2 \<and> (\<forall>w \<in> set ws. FrameDuration w = 3)"
proof -
  let ?out = "\<lparr>LargestPossibleTemporalRegion = region 0 0, RequestedTemporalRegion = region 10 4,
               BufferedTemporalRegion = region 0 0\<rparr>"
  let ?p = "stage 3 2 1 0 NonTemporal (requesting (region 10 4))"
  show ?thesis
    using SplitRequestedTemporalRegion_count [of ?p ?out RequestedTemporalRegion oor_zero]
    by (simp add: stage_def requesting_def region_def)
qed

text \<open>
  The duration \<open>2^53 + 1\<close> becomes \<open>2^53\<close> as a \<open>double\<close>: with the unit \<open>2^52\<close> of the
  output there are \<open>2\<close> windows, one fewer than \<open>\<lceil>(2^53 + 1) / 2^52\<rceil> = 3\<close>.
\<close>

theorem SplitRequestedTemporalRegion_count_counterexample:
  "SplitRequestedTemporalRegion RequestedTemporalRegion oor_zero
     (stage 3 4503599627370496 1 0 NonTemporal (requesting (region 10 9007199254740993)))
   = Some (Inr [region 10 3, region 11 3])
   \<and> \<lceil>(9007199254740993 :: rat) / 4503599627370496\<rceil> = (3 :: int)"
proof -
  have a: "fl 9007199254740993 = 9007199254740992" by code_simp
  have b: "fl 4503599627370496 = 4503599627370496" using fl_of_nat [of 4503599627370496] by simp
  have c: "fl 2 = 2" using fl_of_nat [of 2] by simp
  have N: "ulong_of_double oor_zero
             (double_ceil (double_div (double_of_ulong 9007199254740993)
                                      (double_of_ulong 4503599627370496))) = 2"
    by (simp add: double_of_ulong_unat a b c trunc_def)
  have "\<lceil>(9007199254740993 :: rat) / 4503599627370496\<rceil> = (3 :: int)" by code_simp
  then show ?thesis
    by (simp add: SplitRequestedTemporalRegion_def stage_def requesting_def region_def N
          split_loop.simps)
qed

text \<open>
  C9, as amended. When \<open>FrameSkipPerOutput\<close> is \<open>0\<close>, every window the function returns
  starts at frame \<open>1\<close>, whatever the start of the unbuffered region, and has duration
  \<open>UnitInputNumberOfFrames\<close>: all windows are identical. For a duration \<open>d\<close> below \<open>2^53\<close>
  and \<open>\<lceil>d / u\<rceil> < 2^32\<close> the function returns, and there are \<open>\<lceil>d / u\<rceil>\<close> of them.
\<close>

theorem SplitRequestedTemporalRegion_zero_skip:
  assumes "Output0 p = Temporal outputObject" and "FrameSkipPerOutput p = 0"
  shows "(\<forall>ws. SplitRequestedTemporalRegion g oor p = Some (Inr ws) \<longrightarrow>
            (\<forall>w \<in> set ws. w = \<lparr>FrameStart = 1, FrameDuration = UnitInputNumberOfFrames p\<rparr>))
         \<and> (UnitOutputNumberOfFrames p \<noteq> 0
            \<and> unat (FrameDuration (g outputObject)) < 2 ^ 53
            \<and> \<lceil>of_nat (unat (FrameDuration (g outputObject)))
                 / of_nat (unat (UnitOutputNumberOfFrames p)) :: rat\<rceil> < 2 ^ 32 \<longrightarrow>
            SplitRequestedTemporalRegion g oor p =
              Some (Inr (replicate
                           (nat \<lceil>of_nat (unat (FrameDuration (g outputObject)))
                                  / of_nat (unat (UnitOutputNumberOfFrames p)) :: rat\<rceil>)
                           \<lparr>FrameStart = 1, FrameDuration = UnitInputNumberOfFrames p\<rparr>)))"
proof (intro conjI allI impI)
  fix ws
  assume "SplitRequestedTemporalRegion g oor p = Some (Inr ws)"
  from SplitRequestedTemporalRegion_returned [OF assms(1) this]
  show "\<forall>w \<in> set ws. w = \<lparr>FrameStart = 1, FrameDuration = UnitInputNumberOfFrames p\<rparr>"
    using assms(2) by auto
next
  assume h: "UnitOutputNumberOfFrames p \<noteq> 0
            \<and> unat (FrameDuration (g outputObject)) < 2 ^ 53
            \<and> \<lceil>of_nat (unat (FrameDuration (g outputObject)))
                 / of_nat (unat (UnitOutputNumberOfFrames p)) :: rat\<rceil> < 2 ^ 32"
  then have u: "UnitOutputNumberOfFrames p \<noteq> 0"
    and d: "unat (FrameDuration (g outputObject)) < 2 ^ 53"
    and c: "\<lceil>of_nat (unat (FrameDuration (g outputObject)))
                 / of_nat (unat (UnitOutputNumberOfFrames p)) :: rat\<rceil> < 2 ^ 32"
    by blast+
  show "SplitRequestedTemporalRegion g oor p =
              Some (Inr (replicate
                           (nat \<lceil>of_nat (unat (FrameDuration (g outputObject)))
                                  / of_nat (unat (UnitOutputNumberOfFrames p)) :: rat\<rceil>)
                           \<lparr>FrameStart = 1, FrameDuration = UnitInputNumberOfFrames p\<rparr>))"
    unfolding SplitRequestedTemporalRegion_windows [of p outputObject g oor, OF assms(1) u d c]
    using assms(2) by (simp add: map_replicate_const)
qed

theorem SplitRequestedTemporalRegion_zero_skip_witness:
  "SplitRequestedTemporalRegion RequestedTemporalRegion oor_zero
     (stage 3 2 0 0 NonTemporal (requesting (region 10 5)))
   = Some (Inr (replicate 3 (region 1 3)))"
proof -
  let ?out = "\<lparr>LargestPossibleTemporalRegion = region 0 0, RequestedTemporalRegion = region 10 5,
               BufferedTemporalRegion = region 0 0\<rparr>"
  let ?p = "stage 3 2 0 0 NonTemporal (requesting (region 10 5))"
  have c: "\<lceil>(5 :: rat) / 2\<rceil> = (3 :: int)" by code_simp
  have "Output0 ?p = Temporal ?out" "FrameSkipPerOutput ?p = 0"
    by (simp_all add: stage_def requesting_def)
  from SplitRequestedTemporalRegion_zero_skip [OF this, of RequestedTemporalRegion oor_zero]
  have "UnitOutputNumberOfFrames ?p \<noteq> 0
        \<and> unat (FrameDuration (RequestedTemporalRegion ?out)) < 2 ^ 53
        \<and> \<lceil>of_nat (unat (FrameDuration (RequestedTemporalRegion ?out)))
              / of_nat (unat (UnitOutputNumberOfFrames ?p)) :: rat\<rceil> < 2 ^ 32 \<longrightarrow>
        SplitRequestedTemporalRegion RequestedTemporalRegion oor_zero ?p =
          Some (Inr (replicate
                       (nat \<lceil>of_nat (unat (FrameDuration (RequestedTemporalRegion ?out)))
                              / of_nat (unat (UnitOutputNumberOfFrames ?p)) :: rat\<rceil>)
                       \<lparr>FrameStart = 1, FrameDuration = UnitInputNumberOfFrames ?p\<rparr>))"
    by (rule conjunct2)
  moreover have "FrameDuration (RequestedTemporalRegion ?out) = 5"
    "UnitOutputNumberOfFrames ?p = 2" "UnitInputNumberOfFrames ?p = 3"
    by (simp_all add: stage_def region_def)
  ultimately show ?thesis
    by (simp add: c region_def)
qed

text \<open>
  With skip \<open>0\<close>, the duration \<open>2^53 + 1\<close> and the unit \<open>2^51\<close> of the output there are
  \<open>4\<close> windows, one fewer than \<open>\<lceil>(2^53 + 1) / 2^51\<rceil> = 5\<close>.
\<close>

theorem SplitRequestedTemporalRegion_zero_skip_counterexample:
  "SplitRequestedTemporalRegion RequestedTemporalRegion oor_zero
     (stage 3 2251799813685248 0 0 NonTemporal (requesting (region 10 9007199254740993)))
   = Some (Inr [region 1 3, region 1 3, region 1 3, region 1 3])
   \<and> \<lceil>(9007199254740993 :: rat) / 2251799813685248\<rceil> = (5 :: int)"
proof -
  have a: "fl 9007199254740993 = 9007199254740992" by code_simp
  have b: "fl 2251799813685248 = 2251799813685248" using fl_of_nat [of 2251799813685248] by simp
  have c: "fl 4 = 4" using fl_of_nat [of 4] by simp
  have N: "ulong_of_double oor_zero
             (double_ceil (double_div (double_of_ulong 9007199254740993)
                                      (double_of_ulong 2251799813685248))) = 4"
    by (simp add: double_of_ulong_unat a b c trunc_def)
  have "\<lceil>(9007199254740993 :: rat) / 2251799813685248\<rceil> = (5 :: int)" by code_simp
  then show ?thesis
    by (simp add: SplitRequestedTemporalRegion_def stage_def requesting_def region_def N
          split_loop.simps)
qed

subsection \<open>EnlargeOutputRequestedRegion\<close>

lemma next_multiple:
  fixes D U :: nat
  assumes "0 < U" "0 < D mod U"
  shows "(D + U - 1) div U * U = D - D mod U + U"
proof -
  define q where "q = D div U"
  define r where "r = D mod U"
  have D: "D = q * U + r" by (simp add: q_def r_def)
  have r: "0 < r" "r < U" using assms by (simp_all add: r_def)
  have "D + U - 1 = (r - 1) + (q + 1) * U" using D r by (simp add: algebra_simps)
  then have "(D + U - 1) div U = ((r - 1) + (q + 1) * U) div U" by simp
  also have "\<dots> = (q + 1) + (r - 1) div U" using assms(1) by (intro div_mult_self1) simp
  also have "\<dots> = q + 1" using r by simp
  finally have "(D + U - 1) div U * U = (q + 1) * U" by simp
  also have "\<dots> = D - r + U" using D by simp
  finally show ?thesis by (simp only: r_def)
qed

text \<open>
  C7, as amended. For every unit \<open>u > 0\<close> of the output and every requested duration \<open>d\<close>
  such that the remainder \<open>d mod u\<close> is below \<open>2^32\<close> and the next multiple of \<open>u\<close> at or
  above \<open>d\<close> is below \<open>2^64\<close>, the requested duration after
  \<open>EnlargeOutputRequestedRegion\<close> is a multiple of \<open>u\<close>, is at least \<open>d\<close> and is below
  \<open>d + u\<close>: it is \<open>d\<close> rounded up to the next multiple, and \<open>d\<close> itself when \<open>d\<close> is a
  multiple already.
\<close>

theorem EnlargeOutputRequestedRegion_rounds_up:
  assumes u: "UnitOutputNumberOfFrames p \<noteq> 0"
    and r: "unat (FrameDuration (RequestedTemporalRegion output))
              mod unat (UnitOutputNumberOfFrames p) < 2 ^ 32"
    and m: "(unat (FrameDuration (RequestedTemporalRegion output))
               + unat (UnitOutputNumberOfFrames p) - 1)
              div unat (UnitOutputNumberOfFrames p) * unat (UnitOutputNumberOfFrames p) < 2 ^ 64"
  shows "\<exists>d'. EnlargeOutputRequestedRegion p (Temporal output) =
                 Inr (Temporal (output\<lparr>RequestedTemporalRegion :=
                                  (RequestedTemporalRegion output)\<lparr>FrameDuration := d'\<rparr>\<rparr>))
              \<and> unat (UnitOutputNumberOfFrames p) dvd unat d'
              \<and> unat (FrameDuration (RequestedTemporalRegion output)) \<le> unat d'
              \<and> unat d' < unat (FrameDuration (RequestedTemporalRegion output))
                            + unat (UnitOutputNumberOfFrames p)"
proof -
  define d where "d = FrameDuration (RequestedTemporalRegion output)"
  define uo where "uo = UnitOutputNumberOfFrames p"
  define remainder :: uint where "remainder = ucast (d mod uo)"
  have U: "0 < unat uo" using u by (simp add: uo_def unat_gt_0)
  have R: "unat (d mod uo) = unat d mod unat uo" by (rule unat_mod)
  have Rlt: "unat d mod unat uo < unat uo" using U by simp
  have r': "unat d mod unat uo < 2 ^ 32" using r by (simp only: d_def uo_def)
  have rem: "unat remainder = unat d mod unat uo"
    using r' by (simp add: remainder_def unat_ucast_ulong R)
  have cast_back: "(ucast remainder :: ulong) = d mod uo"
    by (rule word_unat_eq_iff [THEN iffD2]) (simp add: unat_ucast_uint rem R)
  have pos: "(0 < remainder) = (0 < unat d mod unat uo)"
    by (simp add: word_less_nat_alt rem)
  have run: "EnlargeOutputRequestedRegion p (Temporal output) =
             Inr (Temporal (output\<lparr>RequestedTemporalRegion :=
                (RequestedTemporalRegion output)\<lparr>FrameDuration :=
                   (if 0 < unat d mod unat uo then d + (uo - d mod uo) else d)\<rparr>\<rparr>))"
    using u
    by (simp add: EnlargeOutputRequestedRegion_def EnlargeOutputRequestedTemporalRegion_def Let_def
          d_def [symmetric] uo_def [symmetric] remainder_def [symmetric] cast_back pos)
  show ?thesis
  proof (cases "0 < unat d mod unat uo")
    case False
    then have "unat uo dvd unat d" by (simp add: mod_eq_0_iff_dvd)
    with run False U show ?thesis
      by (intro exI [of _ d]) (simp add: d_def uo_def)
  next
    case True
    have le: "d mod uo \<le> uo" using Rlt by (simp add: word_le_nat_alt R)
    have sub: "unat (uo - d mod uo) = unat uo - unat d mod unat uo"
      using unat_sub [OF le] by (simp add: R)
    have "unat d - unat d mod unat uo + unat uo < 2 ^ 64"
      using m next_multiple [OF U True] by (simp add: d_def uo_def)
    then have fit: "unat d + unat (uo - d mod uo) < 2 ^ LENGTH(64)"
      using Rlt by (simp add: sub)
    have add: "unat (d + (uo - d mod uo)) = unat d + (unat uo - unat d mod unat uo)"
      using fit by (simp add: unat_add_lem [THEN iffD1] sub)
    have "unat uo dvd unat d - unat d mod unat uo" by (rule dvd_minus_mod)
    then have "unat uo dvd unat d - unat d mod unat uo + unat uo"
      by (rule dvd_add) (rule dvd_refl)
    moreover have "unat d + (unat uo - unat d mod unat uo) = unat d - unat d mod unat uo + unat uo"
      using Rlt mod_less_eq_dividend [of "unat d" "unat uo"] by linarith
    ultimately have dv: "unat uo dvd unat (d + (uo - d mod uo))" by (simp add: add)
    show ?thesis
      using run True dv Rlt
      by (intro exI [of _ "d + (uo - d mod uo)"])
         (simp add: d_def [symmetric] uo_def [symmetric] add)
  qed
qed


theorem EnlargeOutputRequestedRegion_rounds_up_witness:
  "\<exists>d'. EnlargeOutputRequestedRegion (stage 3 4 1 0 NonTemporal NonTemporal)
              (requesting (region 5 9)) = Inr (requesting (region 5 d'))
        \<and> 4 dvd unat d' \<and> 9 \<le> unat d' \<and> unat d' < 9 + 4"
proof -
  let ?out = "\<lparr>LargestPossibleTemporalRegion = region 0 0, RequestedTemporalRegion = region 5 9,
               BufferedTemporalRegion = region 0 0\<rparr>"
  show ?thesis
    using EnlargeOutputRequestedRegion_rounds_up [of "stage 3 4 1 0 NonTemporal NonTemporal" ?out]
    by (simp add: stage_def requesting_def region_def)
qed

text \<open>
  The duration \<open>2^64 - 1\<close> with the unit \<open>2\<close> has the remainder \<open>1\<close>; adding \<open>2 - 1\<close> wraps
  around to \<open>0\<close>, which is below the duration requested.
\<close>

theorem EnlargeOutputRequestedRegion_overflow_counterexample:
  "EnlargeOutputRequestedRegion (stage 3 2 1 0 NonTemporal NonTemporal)
     (requesting (region 5 18446744073709551615)) = Inr (requesting (region 5 0))
   \<and> unat (0 :: ulong) < unat (18446744073709551615 :: ulong)"
  by (simp add: EnlargeOutputRequestedRegion_def EnlargeOutputRequestedTemporalRegion_def
        stage_def requesting_def region_def)

subsection \<open>UpdateOutputInformation\<close>

lemma fl_nonzero: "x \<noteq> 0 \<Longrightarrow> fl x \<noteq> 0"
proof -
  have pos: "0 < fl y" if "0 < y" for y
  proof -
    have "0 < (2::rat) powi ilog2 y" by (simp add: zero_less_power_int)
    then show ?thesis using fl_range(1) [OF that] by (rule less_le_trans)
  qed
  assume "x \<noteq> 0"
  then consider "0 < x" | "0 < - x" by linarith
  then show ?thesis
  proof cases
    case 1 then show ?thesis using pos [of x] by simp
  next
    case 2 then show ?thesis using pos [of "- x"] by (simp add: fl_minus)
  qed
qed

text \<open>
  When the divisor divides the dividend and the values stay below \<open>2^53\<close>, the expression
  \<open>u * ((double)a / (double)k + 1)\<close> is computed without rounding.
\<close>

lemma double_product_exact:
  assumes k: "k \<noteq> 0" "k dvd a" and a: "\<bar>a\<bar> < 2 ^ 53"
    and m: "\<bar>int u * (a div k + 1)\<bar> < 2 ^ 53"
  shows "fl (fl (of_nat u) * fl (fl (of_int a / fl (of_int k)) + 1))
         = of_int (int u * (a div k + 1))"
proof -
  have q: "fl (of_int a / fl (of_int k)) = of_int (a div k)"
  proof (cases "a = 0")
    case True
    then show ?thesis by (simp add: fl_def)
  next
    case False
    from k(2) obtain c where c: "a = k * c" by (rule dvdE)
    have dc: "a div k = c" using k(1) c by simp
    have "1 \<le> \<bar>k\<bar>" using k(1) by simp
    then have "1 * \<bar>c\<bar> \<le> \<bar>k\<bar> * \<bar>c\<bar>" by (intro mult_right_mono) auto
    then have cle: "\<bar>c\<bar> \<le> \<bar>a\<bar>" by (simp add: c abs_mult)
    have "c \<noteq> 0" using False c by auto
    then have "1 \<le> \<bar>c\<bar>" by simp
    then have "\<bar>k\<bar> * 1 \<le> \<bar>k\<bar> * \<bar>c\<bar>" by (intro mult_left_mono) auto
    then have "\<bar>k\<bar> \<le> \<bar>a\<bar>" by (simp add: c abs_mult)
    with a have "fl (of_int k) = of_int k" by (intro fl_of_int) simp
    moreover have "(of_int a :: rat) / of_int k = of_int (a div k)"
      using k(1) by (simp add: dc) (simp add: c)
    moreover have "\<bar>a div k\<bar> \<le> \<bar>a\<bar>" using cle by (simp only: dc)
    ultimately show ?thesis using a by (simp add: fl_of_int)
  qed
  have s: "fl (of_int (a div k) + 1) = fl (of_int (a div k + 1))" by simp
  show ?thesis
  proof (cases "u = 0 \<or> a div k + 1 = 0")
    case True
    have fl0: "fl 0 = 0" by (simp add: fl_def)
    from True show ?thesis
    proof
      assume "u = 0"
      then show ?thesis by (simp add: fl0)
    next
      assume z: "a div k + 1 = 0"
      have "fl (of_int (a div k) + 1) = 0" by (simp only: s z of_int_0 fl0)
      then show ?thesis by (simp add: q z fl0)
    qed
  next
    case False
    then have u1: "1 \<le> int u" and c1: "1 \<le> \<bar>a div k + 1\<bar>" by auto
    have "\<bar>int u * (a div k + 1)\<bar> = int u * \<bar>a div k + 1\<bar>" by (simp add: abs_mult)
    with m have prod: "int u * \<bar>a div k + 1\<bar> < 2 ^ 53" by simp
    have "int u * 1 \<le> int u * \<bar>a div k + 1\<bar>" using c1 by (intro mult_left_mono) auto
    with prod have ub: "int u < 2 ^ 53" by simp
    have "1 * \<bar>a div k + 1\<bar> \<le> int u * \<bar>a div k + 1\<bar>" using u1 by (intro mult_right_mono) auto
    with prod have cb: "\<bar>a div k + 1\<bar> < 2 ^ 53" by simp
    have fu: "fl (of_nat u) = of_nat u" using ub by (intro fl_of_nat) simp
    have fc: "fl (of_int (a div k + 1)) = of_int (a div k + 1)" using cb by (rule fl_of_int)
    have "fl (of_nat u * of_int (a div k + 1)) = fl (of_int (int u * (a div k + 1)))" by simp
    also have "\<dots> = of_int (int u * (a div k + 1))" using m by (rule fl_of_int)
    finally show ?thesis by (simp only: q s fu fc)
  qed
qed

text \<open>
  Where \<open>FrameSkipPerOutput\<close> is not \<open>0\<close> and divides \<open>a = scannableDuration - 1\<close> (read as
  a \<open>long\<close>), and \<open>a\<close> and the product stay below \<open>2^53\<close> in magnitude, the duration stored
  is \<open>UnitOutputNumberOfFrames * (a / FrameSkipPerOutput + 1)\<close>, a whole number of units of
  the output; the start stored is that of the input plus \<open>InputStencilCurrentFrameIndex\<close>.
\<close>

lemma UpdateOutputInformation_divisible:
  assumes p: "p = Superclass_Update p0"
    and inp: "Input0 p = Temporal input" and out: "Output0 p = Temporal output"
    and a: "a = sint (FrameDuration (LargestPossibleTemporalRegion input)
                        - UnitInputNumberOfFrames p + 1 - 1)"
    and k: "FrameSkipPerOutput p \<noteq> 0" and dv: "sint (FrameSkipPerOutput p) dvd a"
    and ab: "\<bar>a\<bar> < 2 ^ 53"
    and mb: "\<bar>int (unat (UnitOutputNumberOfFrames p))
               * (a div sint (FrameSkipPerOutput p) + 1)\<bar> < 2 ^ 53"
  shows "UpdateOutputInformation Superclass_Update oor p0 =
           Inr (p\<lparr>Output0 := Temporal (output\<lparr>LargestPossibleTemporalRegion :=
                  \<lparr>FrameStart = FrameStart (LargestPossibleTemporalRegion input)
                                  + InputStencilCurrentFrameIndex p,
                   FrameDuration = word_of_int (int (unat (UnitOutputNumberOfFrames p))
                                     * (a div sint (FrameSkipPerOutput p) + 1))\<rparr>\<rparr>)\<rparr>)"
proof -
  define D where "D =
    long_of_double oor
      (double_mul (double_of_ulong (UnitOutputNumberOfFrames p))
         (double_add
            (double_div
               (double_of_long (FrameDuration (LargestPossibleTemporalRegion input)
                                  - UnitInputNumberOfFrames p + 1 - 1))
               (double_of_long (FrameSkipPerOutput p)))
            (Finite 1)))"
  have run: "UpdateOutputInformation Superclass_Update oor p0 =
               Inr (p\<lparr>Output0 := Temporal (output\<lparr>LargestPossibleTemporalRegion :=
                      \<lparr>FrameStart = FrameStart (LargestPossibleTemporalRegion input)
                                      + InputStencilCurrentFrameIndex p,
                       FrameDuration = D\<rparr>\<rparr>)\<rparr>)"
    using inp out
    by (simp add: UpdateOutputInformation_def Let_def p [symmetric] D_def)
  define M where "M = int (unat (UnitOutputNumberOfFrames p))
                        * (a div sint (FrameSkipPerOutput p) + 1)"
  have k0: "sint (FrameSkipPerOutput p) \<noteq> 0" using k by (simp add: signed_eq_0_iff)
  then have fk: "fl (of_int (sint (FrameSkipPerOutput p))) \<noteq> 0"
    by (intro fl_nonzero) (simp del: of_int_sint)
  have fa: "fl (of_int a) = of_int a" using ab by (rule fl_of_int)
  have prod: "fl (fl (of_nat (unat (UnitOutputNumberOfFrames p)))
                  * fl (fl (of_int a / fl (of_int (sint (FrameSkipPerOutput p)))) + 1))
              = of_int M"
    unfolding M_def using k0 dv ab mb by (rule double_product_exact)
  have Mb: "\<bar>M\<bar> < 2 ^ 53" using mb by (simp only: M_def)
  then have range: "- (2 ^ 63) \<le> M" "M < 2 ^ 63" by simp_all
  have "D = word_of_int M"
    unfolding D_def double_of_ulong_unat double_of_long_def a [symmetric]
    using fk range by (simp add: fa prod trunc_of_int del: of_nat_unat of_int_sint)
  with run show ?thesis by (simp only: M_def)
qed

text \<open>
  With the units \<open>1\<close> and \<open>2\<close>, the skip \<open>2\<close> and an input of \<open>4\<close> frames the duration stored
  is \<open>2 * (3 / 2 + 1) = 5\<close>, not a whole number of units of the output.
\<close>

lemma UpdateOutputInformation_odd_duration:
  "UpdateOutputInformation id oor_zero
     (stage 1 2 2 0 (providing (region 0 4)) (providing (region 0 0)))
   = Inr (stage 1 2 2 0 (providing (region 0 4)) (providing (region 0 5)))"
proof -
  have f2: "fl 2 = 2" using fl_of_nat [of 2] by simp
  have f3: "fl 3 = 3" using fl_of_nat [of 3] by simp
  have f5: "fl 5 = 5" using fl_of_nat [of 5] by simp
  have fh: "fl (3 / 2) = 3 / 2" by code_simp
  have fs: "fl (5 / 2) = 5 / 2" by code_simp
  show ?thesis
    by (simp add: UpdateOutputInformation_def stage_def providing_def region_def
          double_of_ulong_unat double_of_long_def f2 f3 f5 fh fs trunc_def)
qed

text \<open>
  C4. The claim is that the duration of the largest possible region of the output is
  \<open>unitOutputNumberOfFrames * floor((scannableDuration - 1) / frameSkipPerOutput + 1)\<close>, a
  whole number of units of the output. The code multiplies in \<open>double\<close> before it drops the
  fraction: with the units \<open>3\<close> and \<open>2\<close>, the skip \<open>2\<close> and an input of \<open>4\<close> frames from
  frame \<open>7\<close> it stores the start \<open>8\<close> and the duration \<open>2 * (1 / 2 + 1) = 3\<close>, where the
  formula gives \<open>2 * floor(1 / 2 + 1) = 2\<close>; \<open>3\<close> is not a multiple of the unit \<open>2\<close>.
\<close>

theorem UpdateOutputInformation_duration_not_whole_units:
  "UpdateOutputInformation id oor_zero
     (stage 3 2 2 1 (providing (region 7 4)) (providing (region 0 0)))
   = Inr (stage 3 2 2 1 (providing (region 7 4)) (providing (region 8 3)))
   \<and> spec_output_duration (stage 3 2 2 1 (providing (region 7 4)) (providing (region 0 0)))
         (region 7 4) = 2
   \<and> unat (3 :: ulong) mod unat (2 :: ulong) = 1"
proof -
  have f1: "fl 1 = 1" using fl_of_nat [of 1] by simp
  have f2: "fl 2 = 2" using fl_of_nat [of 2] by simp
  have f3: "fl 3 = 3" using fl_of_nat [of 3] by simp
  have fh: "fl (1 / 2) = 1 / 2" by code_simp
  have fs: "fl (3 / 2) = 3 / 2" by code_simp
  have fl12: "\<lfloor>(1 :: rat) / 2\<rfloor> = 0" by code_simp
  have run: "UpdateOutputInformation id oor_zero
     (stage 3 2 2 1 (providing (region 7 4)) (providing (region 0 0)))
   = Inr (stage 3 2 2 1 (providing (region 7 4)) (providing (region 8 3)))"
    by (simp add: UpdateOutputInformation_def stage_def providing_def region_def
          double_of_ulong_unat double_of_long_def f1 f2 f3 fh fs trunc_def)
  have "spec_output_duration (stage 3 2 2 1 (providing (region 7 4)) (providing (region 0 0)))
         (region 7 4) = 2"
    by (simp add: spec_output_duration_def stage_def region_def fl12)
  with run show ?thesis by simp
qed

end
